theory Spec2Isabelle
  imports Main "HOL-Library.AList"
begin

section \<open>The page cache of BeamerPresenter\<close>

text \<open>
  The development embeds the cache management of the control screen
  (\<^verbatim>\<open>src/screens/controlscreen.cpp\<close>), the per-label cache of
  \<^verbatim>\<open>src/pagelabel.cpp\<close> and the page change of the presentation screen.

  Numbers: page numbers are C++ \<^verbatim>\<open>int\<close>, byte counts are \<^verbatim>\<open>qint64\<close>. The page
  numbers of a document and the bytes of its rendered pages stay far below the limits
  of these types, so the arithmetic on them alone is taken in \<^typ>\<open>int\<close>. The limits on
  bytes and on pages are whatever the user sets, and the tests that follow the loop of
  \<^verbatim>\<open>updateCacheStep\<close> multiply them; there every product is taken in its C++ type:
  a result outside the type is the result modulo \<open>2 ^ 32\<close> or \<open>2 ^ 64\<close>, as the processor
  computes it (\<open>as_int\<close>, \<open>as_qint64\<close> below).
  A \<^verbatim>\<open>QByteArray\<close> is a list of bytes, a \<^verbatim>\<open>QMap<int, QByteArray const*>\<close> an
  association list with one entry per key, and a \<^verbatim>\<open>Poppler::Page*\<close> is the index
  of the page, \<^term>\<open>None\<close> for \<^verbatim>\<open>nullptr\<close>.
\<close>

type_synonym QByteArray = string

type_synonym QMap = "(int \<times> QByteArray) list"

definition contains :: "QMap \<Rightarrow> int \<Rightarrow> bool" where
  "contains cache index = (map_of cache index \<noteq> None)"

subsection \<open>The cache of a page label (pagelabel.cpp)\<close>

text \<open>\<^verbatim>\<open>PageLabel::updateCache(QByteArray const* bytes, int const index)\<close>: write the
  bytes to the cache of the page and return their size.\<close>

definition PageLabel_updateCache_bytes :: "QByteArray option \<Rightarrow> int \<Rightarrow> QMap \<Rightarrow> int \<times> QMap" where
  "PageLabel_updateCache_bytes bytes index cache =
     (case bytes of
        None \<Rightarrow> (0, cache)
      | Some b \<Rightarrow>
          if b = [] then (0, cache)
          else (int (length b), AList.update index b cache))"

text \<open>\<^verbatim>\<open>PageLabel::getCacheSize\<close>, \<^verbatim>\<open>PageLabel::clearCache\<close> and
  \<^verbatim>\<open>PageLabel::clearCachePage\<close>.\<close>

definition getCacheSize :: "QMap \<Rightarrow> int" where
  "getCacheSize cache = sum_list (map (\<lambda>e. int (length (snd e))) cache)"

definition clearCache :: "QMap \<Rightarrow> QMap" where
  "clearCache cache = []"

definition clearCachePage :: "int \<Rightarrow> QMap \<Rightarrow> int \<times> QMap" where
  "clearCachePage index cache =
     (case map_of cache index of
        Some b \<Rightarrow> (int (length b), AList.delete index cache)
      | None \<Rightarrow> (0, cache))"

text \<open>
  \<^verbatim>\<open>PageLabel::updateCache(Poppler::Page const* cachePage)\<close> looks the page up,
  renders it, looks it up again and only then writes the image. Between the two
  lookups other code may change the cache (the source: "it could be possible that the
  cache is overwritten while the image is rendered"). These changes are the operations
  on the cache that the file has; the model takes the list of those that ran while the
  image was rendered. \<open>png\<close> is the compressed image the renderer produced.
\<close>

datatype cache_op =
    ClearCache
  | ClearCachePage int
  | UpdateCacheBytes "QByteArray option" int

fun apply_op :: "cache_op \<Rightarrow> QMap \<Rightarrow> QMap" where
  "apply_op ClearCache cache = clearCache cache"
| "apply_op (ClearCachePage i) cache = snd (clearCachePage i cache)"
| "apply_op (UpdateCacheBytes b i) cache = snd (PageLabel_updateCache_bytes b i cache)"

fun apply_ops :: "cache_op list \<Rightarrow> QMap \<Rightarrow> QMap" where
  "apply_ops [] cache = cache"
| "apply_ops (a # as) cache = apply_ops as (apply_op a cache)"

definition PageLabel_updateCache :: "int \<Rightarrow> QByteArray \<Rightarrow> cache_op list \<Rightarrow> QMap \<Rightarrow> int \<times> QMap" where
  "PageLabel_updateCache index png during cache =
     (if contains cache index then (0, cache)
      else
        let cache' = apply_ops during cache
        in if contains cache' index then (0, cache')
           else (int (length png), AList.update index png cache'))"

subsection \<open>The page label and the presentation screen\<close>

record PageLabel =
  page :: "int option"
  pageIndex :: int
  cache :: QMap
  widgetSize :: "int \<times> int"
  oldSize :: "int \<times> int"
  useCache :: bool

text \<open>\<^verbatim>\<open>PageLabel::updateCache(QPixmap const* pixmap, int const index)\<close>; the pixmap is
  given by its compressed image, and a null pixmap compresses to nothing.\<close>

definition PageLabel_updateCache_pixmap :: "QByteArray option \<Rightarrow> int \<Rightarrow> QMap \<Rightarrow> int \<times> QMap" where
  "PageLabel_updateCache_pixmap pixmap index m =
     (case pixmap of
        None \<Rightarrow> (0, m)
      | Some b \<Rightarrow> (int (length b), AList.update index b m))"

text \<open>
  \<^verbatim>\<open>PageLabel::renderPage(Poppler::Page* page, bool setDuration, QPixmap const* pixmap)\<close>,
  as far as the page shown and the cache go: nothing happens for \<^verbatim>\<open>nullptr\<close>;
  the cache is cleared when the label has a new size; the page becomes the page of
  the label; a page that is neither passed as pixmap nor cached is rendered (to
  \<open>render i\<close>) and cached when the label uses its cache.
\<close>

definition PageLabel_renderPage ::
    "(int \<Rightarrow> QByteArray) \<Rightarrow> int option \<Rightarrow> QByteArray option \<Rightarrow> PageLabel \<Rightarrow> PageLabel" where
  "PageLabel_renderPage render pg pixmap l =
     (case pg of
        None \<Rightarrow> l
      | Some i \<Rightarrow>
          let l1 = (if widgetSize l \<noteq> oldSize l
                    then l\<lparr>cache := clearCache (cache l), oldSize := widgetSize l\<rparr> else l);
              l2 = l1\<lparr>page := Some i, pageIndex := i\<rparr>
          in if pixmap \<noteq> None then l2
             else if contains (cache l2) (pageIndex l2) then l2
             else if useCache l2
               then l2\<lparr>cache := snd (PageLabel_updateCache_pixmap (Some (render i)) i (cache l2))\<rparr>
               else l2)"

record PresentationScreen =
  numPages :: int
  label :: PageLabel

text \<open>Modelled from the spec: \<^verbatim>\<open>PdfDoc::getPage\<close> is not among the sources. A page
  index is a zero-based position in the document, which has a fixed number of pages;
  there is a page for each index below that number and for no other.\<close>

definition getPage :: "int \<Rightarrow> int \<Rightarrow> int option" where
  "getPage n i = (if 0 \<le> i \<and> i < n then Some i else None)"

text \<open>\<^verbatim>\<open>PresentationScreen::renderPage(const int pageNumber)\<close>.\<close>

definition PresentationScreen_renderPage ::
    "(int \<Rightarrow> QByteArray) \<Rightarrow> int \<Rightarrow> PresentationScreen \<Rightarrow> PresentationScreen" where
  "PresentationScreen_renderPage render pageNumber p =
     (if pageNumber < 0 \<or> pageNumber \<ge> numPages p
      then p\<lparr>label := PageLabel_renderPage render (getPage (numPages p) (numPages p - 1)) None (label p)\<rparr>
      else p\<lparr>label := PageLabel_renderPage render (getPage (numPages p) pageNumber) None (label p)\<rparr>)"

subsection \<open>Cache maps\<close>

text \<open>
  Modelled from the spec: the class \<^verbatim>\<open>CacheMap\<close> is not among the sources; the
  control screen only calls it. Following the spec's ImageStore and RenderWorker, a cache
  map owns the images of one widget, by page, and one thread that renders at most one
  page at a time. \<^verbatim>\<open>length\<close> is the number of entries, \<^verbatim>\<open>getSizeBytes\<close> the sum of the
  sizes, \<^verbatim>\<open>clearPage\<close> removes an entry and returns its size (0 if absent),
  \<^verbatim>\<open>clearCache\<close> removes all entries; these are the label's functions above.
  \<^verbatim>\<open>updateCache(page)\<close> starts a render unless the page is cached or the thread is
  busy, and tells whether it did. When the thread delivers its image, the cache map
  stores it unless it is empty or the page has an entry, and reports the bytes added.
\<close>

record CacheMap =
  data :: QMap
  cacheThread :: "int option"

definition CacheMap_length :: "CacheMap \<Rightarrow> int" where
  "CacheMap_length c = int (length (data c))"

definition getSizeBytes :: "CacheMap \<Rightarrow> int" where
  "getSizeBytes c = getCacheSize (data c)"

definition clearPage :: "int \<Rightarrow> CacheMap \<Rightarrow> int \<times> CacheMap" where
  "clearPage pg c = (fst (clearCachePage pg (data c)), c\<lparr>data := snd (clearCachePage pg (data c))\<rparr>)"

definition CacheMap_clearCache :: "CacheMap \<Rightarrow> CacheMap" where
  "CacheMap_clearCache c = c\<lparr>data := clearCache (data c)\<rparr>"

definition CacheMap_updateCache :: "int \<Rightarrow> CacheMap \<Rightarrow> bool \<times> CacheMap" where
  "CacheMap_updateCache pg c =
     (if contains (data c) pg \<or> cacheThread c \<noteq> None then (False, c)
      else (True, c\<lparr>cacheThread := Some pg\<rparr>))"

definition CacheMap_receive :: "QByteArray \<Rightarrow> CacheMap \<Rightarrow> int \<times> CacheMap" where
  "CacheMap_receive bytes c =
     (case cacheThread c of
        None \<Rightarrow> (0, c)
      | Some pg \<Rightarrow>
          if bytes = [] \<or> contains (data c) pg then (0, c\<lparr>cacheThread := None\<rparr>)
          else (int (length bytes), c\<lparr>data := AList.update pg bytes (data c), cacheThread := None\<rparr>))"

subsection \<open>The control screen (controlscreen.cpp)\<close>

text \<open>
  The fields of \<^verbatim>\<open>ControlScreen\<close> that the cache management reads and writes.
  \<open>slideCache\<close> is \<^verbatim>\<open>presentationScreen->slide->getCacheMap()\<close>, \<open>notesCache\<close> is
  \<^verbatim>\<open>ui->notes_widget->getCacheMap()\<close>; \<open>previewCacheX\<close> and \<open>drawSlideCache\<close> may be
  \<^verbatim>\<open>nullptr\<close>. \<open>cacheTimer\<close> tells whether the timer that calls
  \<^verbatim>\<open>updateCacheStep\<close> is running.
\<close>

record ControlScreen =
  numberOfPages :: int
  currentPageNumber :: int
  first_cached :: int
  last_cached :: int
  first_delete :: int
  last_delete :: int
  cacheSize :: int
  maxCacheSize :: int
  maxCacheNumber :: int
  cacheThreadsRunning :: int
  cacheTimer :: bool
  slideCache :: CacheMap
  notesCache :: CacheMap
  previewCache :: CacheMap
  previewCacheX :: "CacheMap option"
  drawSlideCache :: "CacheMap option"

text \<open>The test of \<^verbatim>\<open>updateCache\<close> and \<^verbatim>\<open>updateCacheStep\<close> that all slides are cached.\<close>

definition allCached :: "ControlScreen \<Rightarrow> bool" where
  "allCached s =
     (CacheMap_length (slideCache s) = numberOfPages s
      \<and> CacheMap_length (notesCache s) = numberOfPages s
      \<and> CacheMap_length (previewCache s) = numberOfPages s
      \<and> (case drawSlideCache s of None \<Rightarrow> True | Some d \<Rightarrow> CacheMap_length d = numberOfPages s)
      \<and> (case previewCacheX s of None \<Rightarrow> True | Some x \<Rightarrow> CacheMap_length x = numberOfPages s))"

text \<open>The test that ends \<^verbatim>\<open>freeCachePage\<close> early (three times in the source).\<close>

definition enoughFreed :: "ControlScreen \<Rightarrow> bool" where
  "enoughFreed s =
     (cacheSize s \<le> maxCacheSize s
      \<and> (maxCacheNumber s \<ge> numberOfPages s \<or> CacheMap_length (slideCache s) \<le> maxCacheNumber s))"

text \<open>\<^verbatim>\<open>ControlScreen::freeCachePage(const int page)\<close>.\<close>

definition freeCachePage :: "int \<Rightarrow> ControlScreen \<Rightarrow> bool \<times> ControlScreen" where
  "freeCachePage pg s =
     (let s1 = (case drawSlideCache s of
                  None \<Rightarrow> s
                | Some d \<Rightarrow> s\<lparr>cacheSize := cacheSize s - fst (clearPage pg d),
                              drawSlideCache := Some (snd (clearPage pg d))\<rparr>)
      in if drawSlideCache s \<noteq> None \<and> enoughFreed s1 then (True, s1)
         else
           let s2 = s1\<lparr>cacheSize := cacheSize s1 - fst (clearPage pg (notesCache s1)),
                       notesCache := snd (clearPage pg (notesCache s1))\<rparr>
           in if enoughFreed s2 then (True, s2)
              else
                let s3 = (case previewCacheX s2 of
                            None \<Rightarrow> s2
                          | Some x \<Rightarrow> s2\<lparr>cacheSize := cacheSize s2 - fst (clearPage pg x),
                                         previewCacheX := Some (snd (clearPage pg x))\<rparr>);
                    s4 = s3\<lparr>cacheSize := cacheSize s3 - fst (clearPage pg (previewCache s3)),
                            previewCache := snd (clearPage pg (previewCache s3))\<rparr>
                in if enoughFreed s4 then (True, s4)
                   else (False, s4\<lparr>cacheSize := cacheSize s4 - fst (clearPage pg (slideCache s4)),
                                    slideCache := snd (clearPage pg (slideCache s4))\<rparr>))"

text \<open>\<^verbatim>\<open>ControlScreen::cachePage(const int page)\<close>. For every cache map it has the
  line \<^verbatim>\<open>if (map->updateCache(page)) cacheThreadsRunning++;\<close>, whose second half is
  \<open>countThread\<close>.\<close>

definition countThread :: "bool \<Rightarrow> ControlScreen \<Rightarrow> ControlScreen" where
  "countThread started s =
     (if started then s\<lparr>cacheThreadsRunning := cacheThreadsRunning s + 1\<rparr> else s)"

definition cachePage :: "int \<Rightarrow> ControlScreen \<Rightarrow> ControlScreen" where
  "cachePage pg s =
     (let s0 = s\<lparr>cacheTimer := False, cacheThreadsRunning := 0\<rparr>;
          s1 = countThread (fst (CacheMap_updateCache pg (slideCache s0)))
                 (s0\<lparr>slideCache := snd (CacheMap_updateCache pg (slideCache s0))\<rparr>);
          s2 = countThread (fst (CacheMap_updateCache pg (notesCache s1)))
                 (s1\<lparr>notesCache := snd (CacheMap_updateCache pg (notesCache s1))\<rparr>);
          s3 = countThread (fst (CacheMap_updateCache pg (previewCache s2)))
                 (s2\<lparr>previewCache := snd (CacheMap_updateCache pg (previewCache s2))\<rparr>);
          s4 = (case drawSlideCache s3 of
                  None \<Rightarrow> s3
                | Some d \<Rightarrow> countThread (fst (CacheMap_updateCache pg d))
                              (s3\<lparr>drawSlideCache := Some (snd (CacheMap_updateCache pg d))\<rparr>));
          s5 = (case previewCacheX s4 of
                  None \<Rightarrow> s4
                | Some x \<Rightarrow> countThread (fst (CacheMap_updateCache pg x))
                              (s4\<lparr>previewCacheX := Some (snd (CacheMap_updateCache pg x))\<rparr>))
      in if cacheThreadsRunning s5 = 0 then s5\<lparr>cacheTimer := True\<rparr> else s5)"

text \<open>
  \<^verbatim>\<open>ControlScreen::updateCacheStep\<close>, in its parts. First the two tests that end the
  step at once: all slides are cached, or the region is not as the step needs it.
\<close>

definition regionBroken :: "ControlScreen \<Rightarrow> bool" where
  "regionBroken s =
     (last_cached s > last_delete s
      \<or> first_cached s < first_delete s
      \<or> first_cached s > currentPageNumber s
      \<or> last_cached s < currentPageNumber s - 1)"

text \<open>The condition of the \<^verbatim>\<open>while\<close> loop that frees space.\<close>

definition mustFree :: "ControlScreen \<Rightarrow> bool" where
  "mustFree s =
     (cacheSize s > maxCacheSize s
      \<or> (maxCacheNumber s < numberOfPages s \<and> CacheMap_length (slideCache s) > maxCacheNumber s))"

text \<open>
  One pass through the body of the loop. It ends in \<^verbatim>\<open>break\<close>, in \<^verbatim>\<open>return\<close>
  (after stopping the timer) or at the end of the body, from where the loop tests its
  condition again.
\<close>

datatype loop_ctl = Continue | Break | Return

definition regionCheck :: "ControlScreen \<Rightarrow> loop_ctl \<times> ControlScreen" where
  "regionCheck s =
     (if last_cached s > last_delete s \<or> first_cached s < first_delete s
      then (Return, s\<lparr>cacheTimer := False\<rparr>)
      else (Continue, s))"

definition freeBody :: "ControlScreen \<Rightarrow> loop_ctl \<times> ControlScreen" where
  "freeBody s =
     (if last_delete s > 4 * currentPageNumber s - 3 * first_delete s then
        (if fst (freeCachePage (last_delete s) s) then (Break, snd (freeCachePage (last_delete s) s))
         else
           let s1 = snd (freeCachePage (last_delete s) s);
               s2 = s1\<lparr>last_delete := last_delete s1 - 1\<rparr>;
               s3 = s2\<lparr>last_cached :=
                          (if last_delete s2 > last_cached s2 then last_cached s2 else last_delete s2)\<rparr>
           in regionCheck s3)
      else
        (if fst (freeCachePage (first_delete s) s) then (Break, snd (freeCachePage (first_delete s) s))
         else
           let s1 = snd (freeCachePage (first_delete s) s);
               s2 = s1\<lparr>first_delete := first_delete s1 + 1\<rparr>;
               s3 = s2\<lparr>first_cached :=
                          (if first_cached s2 > first_delete s2 then first_cached s2 else first_delete s2)\<rparr>
           in regionCheck s3))"

text \<open>
  The loop. Nothing bounds the number of its passes (it runs as long as \<open>cacheSize\<close>
  is above the limit, whatever the cache maps hold), so it is a partial function:
  \<^term>\<open>None\<close> is a loop that does not end. The result tells whether the loop ended
  the whole step (\<^verbatim>\<open>return\<close>).
\<close>

partial_function (option) freeLoop :: "ControlScreen \<Rightarrow> (bool \<times> ControlScreen) option" where
  "freeLoop s =
     (if mustFree s then
        (case freeBody s of
           (Continue, s') \<Rightarrow> freeLoop s'
         | (Break, s') \<Rightarrow> Some (False, s')
         | (Return, s') \<Rightarrow> Some (True, s'))
      else Some (False, s))"

text \<open>
  The value of a C++ expression of type \<^verbatim>\<open>int\<close> (32 bits) or \<^verbatim>\<open>qint64\<close> whose exact
  result is \<open>x\<close>: the result in two's complement. \<open>fits_int\<close> and \<open>fits_qint64\<close> say that
  the exact result is in the type.
\<close>

definition as_int :: "int \<Rightarrow> int" where
  "as_int x = (x + 2147483648) mod 4294967296 - 2147483648"

definition as_qint64 :: "int \<Rightarrow> int" where
  "as_qint64 x = (x + 9223372036854775808) mod 18446744073709551616 - 9223372036854775808"

definition fits_int :: "int \<Rightarrow> bool" where
  "fits_int x = (- 2147483648 \<le> x \<and> x \<le> 2147483647)"

definition fits_qint64 :: "int \<Rightarrow> bool" where
  "fits_qint64 x = (- 9223372036854775808 \<le> x \<and> x \<le> 9223372036854775807)"

text \<open>
  What follows the loop: choose a page to render, or stop the timer. \<open>maxCacheSize\<close>
  and \<open>cacheSize\<close> are \<^verbatim>\<open>qint64\<close>, the other operands \<^verbatim>\<open>int\<close>; a product of two
  \<^verbatim>\<open>int\<close> is an \<^verbatim>\<open>int\<close>, a product with a \<^verbatim>\<open>qint64\<close> is a \<^verbatim>\<open>qint64\<close>, and
  products associate to the left.
\<close>

definition selectPage :: "ControlScreen \<Rightarrow> ControlScreen" where
  "selectPage s =
     (if last_cached s + 1 = numberOfPages s then
        (if first_cached s > first_delete s
            \<and> as_qint64 (2 * maxCacheSize s) > as_qint64 (3 * cacheSize s)
            \<and> (maxCacheNumber s = numberOfPages s
                \<or> as_int (2 * maxCacheNumber s) > as_int (3 * CacheMap_length (slideCache s)))
         then cachePage (first_cached s - 1) (s\<lparr>first_cached := first_cached s - 1\<rparr>)
         else s\<lparr>cacheTimer := False\<rparr>)
      else if as_qint64 (2 * maxCacheSize s) < as_qint64 (3 * cacheSize s)
              \<and> (last_cached s = numberOfPages s
                  \<or> as_qint64 (as_int (3 * (last_cached s - currentPageNumber s)) * cacheSize s)
                      > as_qint64 (as_int (2 * CacheMap_length (slideCache s)) * maxCacheSize s))
              \<and> as_qint64 (as_qint64 (maxCacheSize s - cacheSize s) * CacheMap_length (slideCache s))
                  < as_qint64 (2 * cacheSize s)
      then s\<lparr>cacheTimer := False\<rparr>
      else cachePage (last_cached s + 1) (s\<lparr>last_cached := last_cached s + 1\<rparr>))"

definition updateCacheStep :: "ControlScreen \<Rightarrow> ControlScreen option" where
  "updateCacheStep s =
     (if allCached s then Some (s\<lparr>cacheTimer := False\<rparr>)
      else if regionBroken s then Some (s\<lparr>cacheTimer := False\<rparr>)
      else (case freeLoop s of
              None \<Rightarrow> None
            | Some (True, s') \<Rightarrow> Some s'
            | Some (False, s') \<Rightarrow> Some (selectPage s')))"

text \<open>\<^verbatim>\<open>ControlScreen::updateCache\<close>.\<close>

definition clearAllCaches :: "ControlScreen \<Rightarrow> ControlScreen" where
  "clearAllCaches s =
     s\<lparr>slideCache := CacheMap_clearCache (slideCache s),
       notesCache := CacheMap_clearCache (notesCache s),
       previewCache := CacheMap_clearCache (previewCache s),
       previewCacheX := map_option CacheMap_clearCache (previewCacheX s),
       drawSlideCache := map_option CacheMap_clearCache (drawSlideCache s)\<rparr>"

definition totalBytes :: "ControlScreen \<Rightarrow> int" where
  "totalBytes s =
     getSizeBytes (slideCache s) + getSizeBytes (notesCache s) + getSizeBytes (previewCache s)
     + (case previewCacheX s of None \<Rightarrow> 0 | Some x \<Rightarrow> getSizeBytes x)
     + (case drawSlideCache s of None \<Rightarrow> 0 | Some d \<Rightarrow> getSizeBytes d)"

definition resetRegion :: "ControlScreen \<Rightarrow> ControlScreen" where
  "resetRegion s =
     s\<lparr>first_cached := currentPageNumber s,
       last_cached := currentPageNumber s - 1,
       first_delete := 0,
       last_delete := numberOfPages s - 1\<rparr>"

definition widenDelete :: "int \<Rightarrow> ControlScreen \<Rightarrow> ControlScreen" where
  "widenDelete cacheNumber s =
     (let s1 = s\<lparr>last_delete :=
                   (if last_delete s > currentPageNumber s + cacheNumber
                    then last_delete s else currentPageNumber s + cacheNumber)\<rparr>;
          s2 = s1\<lparr>last_delete :=
                    (if last_delete s1 \<ge> numberOfPages s1 then numberOfPages s1 - 1 else last_delete s1)\<rparr>;
          s3 = s2\<lparr>first_delete :=
                    (if first_delete s2 > currentPageNumber s2 - cacheNumber div 2
                     then currentPageNumber s2 - cacheNumber div 2 else first_delete s2)\<rparr>
      in s3\<lparr>first_delete := (if first_delete s3 < 0 then 0 else first_delete s3)\<rparr>)"

definition ControlScreen_updateCache :: "ControlScreen \<Rightarrow> ControlScreen" where
  "ControlScreen_updateCache s =
     (if maxCacheSize s = 0 \<or> maxCacheNumber s = 0 then clearAllCaches s
      else
        let s1 = s\<lparr>cacheTimer := False\<rparr>;
            cacheNumber = CacheMap_length (slideCache s1)
        in if allCached s1 then s1
           else
             let s2 = s1\<lparr>cacheSize :=
                           (if maxCacheSize s1 > 0 then totalBytes s1 else - 8589934591)\<rparr>;
                 s3 = (if first_cached s2 > currentPageNumber s2 \<or> last_cached s2 < currentPageNumber s2
                       then resetRegion s2 else widenDelete cacheNumber s2)
             in if last_cached s3 < numberOfPages s3 - 1 \<or> first_cached s3 > 0
                then s3\<lparr>cacheTimer := True\<rparr> else s3)"

text \<open>
  \<^verbatim>\<open>ControlScreen::renderPage(int const pageNumber, bool const full)\<close> sets the
  current page and then updates the widgets of the control screen; only the first
  is part of the state here.
\<close>

definition ControlScreen_renderPage :: "int \<Rightarrow> ControlScreen \<Rightarrow> ControlScreen" where
  "ControlScreen_renderPage pageNumber s =
     (if pageNumber < 0 \<or> pageNumber \<ge> numberOfPages s
      then s\<lparr>currentPageNumber := numberOfPages s - 1\<rparr>
      else s\<lparr>currentPageNumber := pageNumber\<rparr>)"

text \<open>
  \<^verbatim>\<open>ControlScreen::interruptCacheProcesses\<close> stops the timer and asks the cache
  threads to stop (and waits for them if given a time); it touches no cache map.
  \<^verbatim>\<open>setCacheNumber\<close> and \<^verbatim>\<open>setCacheSize\<close> follow.
\<close>

definition interruptCacheProcesses :: "ControlScreen \<Rightarrow> ControlScreen" where
  "interruptCacheProcesses s = s\<lparr>cacheTimer := False\<rparr>"

definition setCacheNumber :: "int \<Rightarrow> ControlScreen \<Rightarrow> ControlScreen" where
  "setCacheNumber number s =
     (if number < 0 then s\<lparr>maxCacheNumber := numberOfPages s\<rparr>
      else if number = 0 then (interruptCacheProcesses s)\<lparr>maxCacheNumber := 0\<rparr>
      else s\<lparr>maxCacheNumber := number\<rparr>)"

definition setCacheSize :: "int \<Rightarrow> ControlScreen \<Rightarrow> ControlScreen" where
  "setCacheSize sz s =
     (let s1 = (if cacheSize s = 0 then interruptCacheProcesses s else s)
      in s1\<lparr>maxCacheSize := sz\<rparr>)"

text \<open>\<^verbatim>\<open>ControlScreen::cacheThreadFinished\<close>.\<close>

definition cacheThreadFinished :: "ControlScreen \<Rightarrow> ControlScreen" where
  "cacheThreadFinished s =
     (let s1 = s\<lparr>cacheThreadsRunning := cacheThreadsRunning s - 1\<rparr>
      in if cacheThreadsRunning s1 = 0 then s1\<lparr>cacheTimer := True\<rparr> else s1)"

text \<open>\<^verbatim>\<open>ControlScreen::receiveNewPageNumber(int const pageNumber)\<close>.\<close>

definition receiveNewPageNumber :: "int \<Rightarrow> ControlScreen \<Rightarrow> ControlScreen" where
  "receiveNewPageNumber pageNumber s = ControlScreen_updateCache (ControlScreen_renderPage pageNumber s)"

subsection \<open>What happens between the steps\<close>

text \<open>
  Modelled from the spec: \<^verbatim>\<open>ControlScreen::updateCacheSize\<close>, the slot connected to the
  signal \<^verbatim>\<open>cacheSizeChanged\<close> of every cache map, is not among the sources. The control
  screen keeps the bytes used in \<open>cacheSize\<close>, so the slot adds the bytes a cache map
  reports to have added.
\<close>

definition updateCacheSize :: "int \<Rightarrow> ControlScreen \<Rightarrow> ControlScreen" where
  "updateCacheSize diff s = s\<lparr>cacheSize := cacheSize s + diff\<rparr>"

datatype store = SlideStore | NotesStore | PreviewStore | PreviewXStore | DrawStore

definition getStore :: "store \<Rightarrow> ControlScreen \<Rightarrow> CacheMap option" where
  "getStore st s =
     (case st of
        SlideStore \<Rightarrow> Some (slideCache s)
      | NotesStore \<Rightarrow> Some (notesCache s)
      | PreviewStore \<Rightarrow> Some (previewCache s)
      | PreviewXStore \<Rightarrow> previewCacheX s
      | DrawStore \<Rightarrow> drawSlideCache s)"

definition setStore :: "store \<Rightarrow> CacheMap \<Rightarrow> ControlScreen \<Rightarrow> ControlScreen" where
  "setStore st c s =
     (case st of
        SlideStore \<Rightarrow> s\<lparr>slideCache := c\<rparr>
      | NotesStore \<Rightarrow> s\<lparr>notesCache := c\<rparr>
      | PreviewStore \<Rightarrow> s\<lparr>previewCache := c\<rparr>
      | PreviewXStore \<Rightarrow> s\<lparr>previewCacheX := Some c\<rparr>
      | DrawStore \<Rightarrow> s\<lparr>drawSlideCache := Some c\<rparr>)"

text \<open>
  The thread of a cache map delivers its image: the cache map takes it
  (\<^const>\<open>CacheMap_receive\<close>) and signals \<^verbatim>\<open>cacheSizeChanged\<close> and
  \<^verbatim>\<open>cacheThreadFinished\<close>, both connected to the control screen.
\<close>

definition threadDelivers :: "store \<Rightarrow> QByteArray \<Rightarrow> ControlScreen \<Rightarrow> ControlScreen" where
  "threadDelivers st bytes s =
     (case getStore st s of
        None \<Rightarrow> s
      | Some c \<Rightarrow>
          if cacheThread c = None then s
          else cacheThreadFinished
                 (updateCacheSize (fst (CacheMap_receive bytes c))
                    (setStore st (snd (CacheMap_receive bytes c)) s)))"

text \<open>A widget that is shown at a new size clears its cache map
  (\<^verbatim>\<open>PreviewSlide::renderPage\<close>, \<^verbatim>\<open>ControlScreen::recalcLayout\<close>).\<close>

definition widgetResized :: "store \<Rightarrow> ControlScreen \<Rightarrow> ControlScreen" where
  "widgetResized st s =
     (case getStore st s of
        None \<Rightarrow> s
      | Some c \<Rightarrow> setStore st (CacheMap_clearCache c) s)"

text \<open>A \<^verbatim>\<open>QMap\<close> has one entry per key.\<close>

definition wfMap :: "CacheMap \<Rightarrow> bool" where
  "wfMap c = distinct (map fst (data c))"

definition wellFormed :: "ControlScreen \<Rightarrow> bool" where
  "wellFormed s =
     (wfMap (slideCache s) \<and> wfMap (notesCache s) \<and> wfMap (previewCache s)
      \<and> (case previewCacheX s of None \<Rightarrow> True | Some x \<Rightarrow> wfMap x)
      \<and> (case drawSlideCache s of None \<Rightarrow> True | Some d \<Rightarrow> wfMap d))"

text \<open>
  What can happen once \<^verbatim>\<open>updateCache\<close> has started the timer: the timer runs a step
  (only a running timer does), a thread delivers an image, the user changes the page,
  a widget changes its size. A run is a list of such events; it has no result when a
  step does not end.
\<close>

datatype event =
    TimerTick
  | ThreadDelivers store QByteArray
  | NewPageNumber int
  | WidgetResized store

fun occur :: "event \<Rightarrow> ControlScreen \<Rightarrow> ControlScreen option" where
  "occur TimerTick s = (if cacheTimer s then updateCacheStep s else Some s)"
| "occur (ThreadDelivers st bytes) s = Some (threadDelivers st bytes s)"
| "occur (NewPageNumber pageNumber) s = Some (receiveNewPageNumber pageNumber s)"
| "occur (WidgetResized st) s = Some (widgetResized st s)"

fun run :: "event list \<Rightarrow> ControlScreen \<Rightarrow> ControlScreen option" where
  "run [] s = Some s"
| "run (e # es) s = (case occur e s of None \<Rightarrow> None | Some s' \<Rightarrow> run es s')"

text \<open>What the cache maps hold for a page, in the order slide, notes, preview, second
  preview, draw slide.\<close>

definition cachedAt ::
    "ControlScreen \<Rightarrow> int \<Rightarrow> QByteArray option \<times> QByteArray option \<times> QByteArray option
       \<times> QByteArray option option \<times> QByteArray option option" where
  "cachedAt s pg =
     (map_of (data (slideCache s)) pg,
      map_of (data (notesCache s)) pg,
      map_of (data (previewCache s)) pg,
      map_option (\<lambda>x. map_of (data x) pg) (previewCacheX s),
      map_option (\<lambda>d. map_of (data d) pg) (drawSlideCache s))"

text \<open>The region of cached pages and its delete boundaries.\<close>

definition region :: "ControlScreen \<Rightarrow> int \<times> int \<times> int \<times> int" where
  "region s = (first_delete s, first_cached s, last_cached s, last_delete s)"

text \<open>The cache maps of the control screen.\<close>

definition storesOf ::
    "ControlScreen \<Rightarrow> CacheMap \<times> CacheMap \<times> CacheMap \<times> CacheMap option \<times> CacheMap option" where
  "storesOf s = (slideCache s, notesCache s, previewCache s, previewCacheX s, drawSlideCache s)"

text \<open>The number of pages in every cache map.\<close>

definition lengths :: "ControlScreen \<Rightarrow> int list" where
  "lengths s =
     [CacheMap_length (slideCache s), CacheMap_length (notesCache s), CacheMap_length (previewCache s)]
     @ (case previewCacheX s of None \<Rightarrow> [] | Some x \<Rightarrow> [CacheMap_length x])
     @ (case drawSlideCache s of None \<Rightarrow> [] | Some d \<Rightarrow> [CacheMap_length d])"


text \<open>
  The limits, and the bytes by which \<open>cacheSize\<close> is above what the cache maps hold.
  \<open>cacheSize\<close> accounts for the cache maps when each has one entry per key and, if
  there is a limit on the bytes, \<open>cacheSize\<close> is not below the bytes held.
\<close>

definition budgetOf :: "ControlScreen \<Rightarrow> int \<times> int \<times> int" where
  "budgetOf s = (maxCacheSize s, maxCacheNumber s, numberOfPages s)"

definition surplus :: "ControlScreen \<Rightarrow> int" where
  "surplus s = cacheSize s - totalBytes s"

definition accounted :: "ControlScreen \<Rightarrow> bool" where
  "accounted s = (wellFormed s \<and> (0 < maxCacheSize s \<longrightarrow> 0 \<le> surplus s))"

subsection \<open>Dispatching a page\<close>

text \<open>
  The spec on what the control screen does with the page it has chosen: "Dispatching a
  page means: for every (store, worker) pair that does not already contain that page,
  call requestRender; increment an in-flight counter. If zero workers were actually
  dispatched (all stores already had the page), the scheduler must immediately attempt
  another step", where a worker that is rendering rejects the request. \<open>dispatched\<close>
  is the state after this, written from these words, to be compared with
  \<^const>\<open>cachePage\<close>: a cache map starts rendering the page if it does not hold it and
  its thread is idle, and is left alone otherwise; the counter is the number of cache
  maps that started; the timer stays stopped unless none did.
\<close>

definition canStart :: "int \<Rightarrow> CacheMap \<Rightarrow> bool" where
  "canStart pg c = (\<not> contains (data c) pg \<and> cacheThread c = None)"

definition startRender :: "int \<Rightarrow> CacheMap \<Rightarrow> CacheMap" where
  "startRender pg c = (if canStart pg c then c\<lparr>cacheThread := Some pg\<rparr> else c)"

definition cacheMaps :: "ControlScreen \<Rightarrow> CacheMap list" where
  "cacheMaps s =
     [slideCache s, notesCache s, previewCache s]
     @ (case drawSlideCache s of None \<Rightarrow> [] | Some d \<Rightarrow> [d])
     @ (case previewCacheX s of None \<Rightarrow> [] | Some x \<Rightarrow> [x])"

definition dispatched :: "int \<Rightarrow> ControlScreen \<Rightarrow> ControlScreen" where
  "dispatched pg s =
     s\<lparr>cacheThreadsRunning := int (length (filter (canStart pg) (cacheMaps s))),
       cacheTimer := (filter (canStart pg) (cacheMaps s) = []),
       slideCache := startRender pg (slideCache s),
       notesCache := startRender pg (notesCache s),
       previewCache := startRender pg (previewCache s),
       previewCacheX := map_option (startRender pg) (previewCacheX s),
       drawSlideCache := map_option (startRender pg) (drawSlideCache s)\<rparr>"

text \<open>
  The exact value of every product (and of the difference) in the test before
  \<^verbatim>\<open>cachePage(++last_cached)\<close>, and in the test before \<^verbatim>\<open>cachePage(--first_cached)\<close>,
  is in its C++ type.
\<close>

definition forwardTestFits :: "ControlScreen \<Rightarrow> bool" where
  "forwardTestFits s =
     (fits_qint64 (2 * maxCacheSize s)
      \<and> fits_qint64 (3 * cacheSize s)
      \<and> fits_int (3 * (last_cached s - currentPageNumber s))
      \<and> fits_qint64 (3 * (last_cached s - currentPageNumber s) * cacheSize s)
      \<and> fits_int (2 * CacheMap_length (slideCache s))
      \<and> fits_qint64 (2 * CacheMap_length (slideCache s) * maxCacheSize s)
      \<and> fits_qint64 (maxCacheSize s - cacheSize s)
      \<and> fits_qint64 ((maxCacheSize s - cacheSize s) * CacheMap_length (slideCache s))
      \<and> fits_qint64 (2 * cacheSize s))"

definition backwardTestFits :: "ControlScreen \<Rightarrow> bool" where
  "backwardTestFits s =
     (fits_qint64 (2 * maxCacheSize s)
      \<and> fits_qint64 (3 * cacheSize s)
      \<and> fits_int (2 * maxCacheNumber s)
      \<and> fits_int (3 * CacheMap_length (slideCache s)))"

subsection \<open>When the loop ends\<close>

text \<open>
  The pages that some cache map holds; the states in which the loop can free what it
  has to: every page held is a page of the document and has not been passed by both
  delete boundaries, \<open>cacheSize\<close> is above the bytes held by no more than the limit, and
  the limit on pages is not negative; and the measure that shows that the loop ends
  there (the passes until both boundaries have left the document, then the passes
  until the loop turns to the other side).
\<close>

definition keysOf :: "ControlScreen \<Rightarrow> int set" where
  "keysOf s =
     fst ` set (data (slideCache s)) \<union> fst ` set (data (notesCache s))
     \<union> fst ` set (data (previewCache s))
     \<union> (case previewCacheX s of None \<Rightarrow> {} | Some x \<Rightarrow> fst ` set (data x))
     \<union> (case drawSlideCache s of None \<Rightarrow> {} | Some d \<Rightarrow> fst ` set (data d))"

definition canFree :: "ControlScreen \<Rightarrow> bool" where
  "canFree s =
     (wellFormed s
      \<and> (\<forall>k \<in> keysOf s. 0 \<le> k \<and> k < numberOfPages s \<and> (first_delete s \<le> k \<or> k \<le> last_delete s))
      \<and> surplus s \<le> maxCacheSize s
      \<and> 0 \<le> maxCacheNumber s)"

definition passesLeft :: "ControlScreen \<Rightarrow> nat \<times> nat" where
  "passesLeft s =
     (nat (numberOfPages s - first_delete s) + nat (last_delete s + 1),
      (if last_delete s + 1 \<le> 0
       then nat (last_delete s + 3 * first_delete s - 4 * currentPageNumber s)
       else nat (3 - (last_delete s + 3 * first_delete s - 4 * currentPageNumber s))))"

subsection \<open>A document of four pages\<close>

text \<open>
  States for running the definitions: a document of four pages, shown at page 1, with
  the pages 0 to 2 in the cache maps of the slide (two bytes each) and the notes (one
  byte each), nine bytes in all.
\<close>

definition idle :: "QMap \<Rightarrow> CacheMap" where
  "idle m = \<lparr>data = m, cacheThread = None\<rparr>"

definition fourPages :: ControlScreen where
  "fourPages =
     \<lparr>numberOfPages = 4, currentPageNumber = 1,
      first_cached = 0, last_cached = 2, first_delete = 0, last_delete = 3,
      cacheSize = 9, maxCacheSize = 7, maxCacheNumber = 4,
      cacheThreadsRunning = 0, cacheTimer = False,
      slideCache = idle [(0, ''s0''), (1, ''s1''), (2, ''s2'')],
      notesCache = idle [(0, ''a''), (1, ''b''), (2, ''c'')],
      previewCache = idle [],
      previewCacheX = None,
      drawSlideCache = None\<rparr>"

definition fourPagesLabel :: PresentationScreen where
  "fourPagesLabel =
     \<lparr>numPages = 4,
      label = \<lparr>page = Some 1, pageIndex = 1, cache = [(1, ''s1'')],
               widgetSize = (800, 600), oldSize = (800, 600), useCache = True\<rparr>\<rparr>"

text \<open>The same with room for twenty bytes and the timer running, and a state in
  which the region has reached the last page.\<close>

definition roomy :: ControlScreen where
  "roomy = fourPages\<lparr>maxCacheSize := 20, cacheTimer := True\<rparr>"

definition atEnd :: ControlScreen where
  "atEnd =
     fourPages\<lparr>maxCacheSize := 20, cacheTimer := True, currentPageNumber := 2,
       first_cached := 1, last_cached := 3, cacheSize := 6,
       slideCache := idle [(1, ''s1''), (2, ''s2'')],
       notesCache := idle [(1, ''b''), (2, ''c'')]\<rparr>"

text \<open>The state after the loop has freed page 0 in \<^const>\<open>fourPages\<close>.\<close>

definition freed :: ControlScreen where
  "freed =
     fourPages\<lparr>cacheTimer := True, cacheSize := 6, first_cached := 1, first_delete := 1,
       slideCache := idle [(1, ''s1''), (2, ''s2'')],
       notesCache := idle [(1, ''b''), (2, ''c'')]\<rparr>"

text \<open>
  After that step the threads deliver page 3 to the three cache maps, which makes ten
  bytes (\<open>refilled\<close>); the next step frees page 3 again (\<open>freedAgain\<close>).
\<close>

definition refilled :: ControlScreen where
  "refilled =
     freed\<lparr>last_cached := 3, cacheSize := 10,
       slideCache := idle [(1, ''s1''), (2, ''s2''), (3, ''s3'')],
       notesCache := idle [(1, ''b''), (2, ''c''), (3, ''d'')],
       previewCache := idle [(3, ''p'')]\<rparr>"

definition freedAgain :: ControlScreen where
  "freedAgain = freed\<lparr>last_delete := 2\<rparr>"

text \<open>\<^const>\<open>fourPages\<close> with room for eight bytes, and with the user at page 3.\<close>

definition tight :: ControlScreen where
  "tight = fourPages\<lparr>maxCacheSize := 8, cacheTimer := True\<rparr>"

definition jumped :: ControlScreen where
  "jumped = fourPages\<lparr>currentPageNumber := 3\<rparr>"

text \<open>
  \<^const>\<open>roomy\<close> shown at page 0, with a limit of 8 bytes of which 7 are used and two
  pages in the cache map of the presentation slide; and \<^const>\<open>atEnd\<close> with the pages
  below page 1 given up.
\<close>

definition crowded :: ControlScreen where
  "crowded =
     roomy\<lparr>currentPageNumber := 0, cacheSize := 7, maxCacheSize := 8,
       slideCache := idle [(1, ''s1''), (2, ''s2'')]\<rparr>"

definition atEndDone :: ControlScreen where
  "atEndDone = atEnd\<lparr>first_delete := 1\<rparr>"

text \<open>
  States in which the cache maps already hold the page that the step chooses:
  \<^const>\<open>roomy\<close> with page 3 cached, and \<^const>\<open>atEnd\<close> with page 0 cached.
\<close>

definition stocked :: ControlScreen where
  "stocked =
     roomy\<lparr>cacheSize := 13,
       slideCache := idle [(0, ''s0''), (1, ''s1''), (2, ''s2''), (3, ''s3'')],
       notesCache := idle [(0, ''a''), (1, ''b''), (2, ''c''), (3, ''d'')],
       previewCache := idle [(3, ''p'')]\<rparr>"

definition stockedAtEnd :: ControlScreen where
  "stockedAtEnd =
     atEnd\<lparr>cacheSize := 13,
       slideCache := idle [(0, ''s0''), (1, ''s1''), (2, ''s2''), (3, ''s3'')],
       notesCache := idle [(0, ''a''), (1, ''b''), (2, ''c''), (3, ''d'')],
       previewCache := idle [(0, ''p'')]\<rparr>"

text \<open>
  \<^const>\<open>roomy\<close> and \<^const>\<open>atEnd\<close> with a limit of 5000000000000000000 bytes, which
  \<^verbatim>\<open>setCacheSize\<close> accepts and whose double is not a \<^verbatim>\<open>qint64\<close>.
\<close>

definition hugeBudget :: ControlScreen where
  "hugeBudget = roomy\<lparr>maxCacheSize := 5000000000000000000\<rparr>"

definition hugeAtEnd :: ControlScreen where
  "hugeAtEnd = atEnd\<lparr>maxCacheSize := 5000000000000000000\<rparr>"

text \<open>
  A document of five pages with the pages 1 to 4 cached, shown at page 2, and a limit
  of six pages: more than the document has.
\<close>

definition aboveN :: ControlScreen where
  "aboveN =
     \<lparr>numberOfPages = 5, currentPageNumber = 2,
      first_cached = 1, last_cached = 4, first_delete = 0, last_delete = 4,
      cacheSize = 12, maxCacheSize = 100, maxCacheNumber = 6,
      cacheThreadsRunning = 0, cacheTimer = True,
      slideCache = idle [(1, ''s1''), (2, ''s2''), (3, ''s3''), (4, ''s4'')],
      notesCache = idle [(1, ''a''), (2, ''b''), (3, ''c''), (4, ''d'')],
      previewCache = idle [],
      previewCacheX = None,
      drawSlideCache = None\<rparr>"

section \<open>Properties\<close>

subsection \<open>Cache maps\<close>

text \<open>Sizes and entries of the cache maps under the operations on them.\<close>

lemma allCached_timer [simp]: "allCached (s\<lparr>cacheTimer := b\<rparr>) = allCached s"
  by (simp add: allCached_def split: option.splits)

lemma countThread_fields [simp]:
  "first_cached (countThread b s) = first_cached s"
  "last_cached (countThread b s) = last_cached s"
  "first_delete (countThread b s) = first_delete s"
  "last_delete (countThread b s) = last_delete s"
  "slideCache (countThread b s) = slideCache s"
  "notesCache (countThread b s) = notesCache s"
  "previewCache (countThread b s) = previewCache s"
  "previewCacheX (countThread b s) = previewCacheX s"
  "drawSlideCache (countThread b s) = drawSlideCache s"
  "cacheSize (countThread b s) = cacheSize s"
  "maxCacheSize (countThread b s) = maxCacheSize s"
  "maxCacheNumber (countThread b s) = maxCacheNumber s"
  "numberOfPages (countThread b s) = numberOfPages s"
  "currentPageNumber (countThread b s) = currentPageNumber s"
  by (simp_all add: countThread_def)

lemma getCacheSize_nonneg: "0 \<le> getCacheSize m"
  by (induction m) (auto simp: getCacheSize_def)

lemma getCacheSize_delete:
  "distinct (map fst m) \<Longrightarrow> map_of m i = Some b \<Longrightarrow>
   getCacheSize (AList.delete i m) = getCacheSize m - int (length b)"
proof (induction m)
  case Nil
  then show ?case by simp
next
  case (Cons e m)
  show ?case
  proof (cases "fst e = i")
    case True
    with Cons.prems have "snd e = b" by (cases e) simp
    moreover from True Cons.prems have "i \<notin> fst ` set m" by auto
    then have "AList.delete i m = m" by (simp add: delete_id image_iff) 
    ultimately show ?thesis using True by (cases e) (simp add: getCacheSize_def)
  next
    case False
    with Cons show ?thesis by (cases e) (simp add: getCacheSize_def)
  qed
qed

lemma getCacheSize_update:
  "map_of m i = None \<Longrightarrow> getCacheSize (AList.update i b m) = getCacheSize m + int (length b)"
  by (induction m) (auto simp: getCacheSize_def split: if_splits)

lemma clearPage_size:
  "wfMap c \<Longrightarrow> getSizeBytes (snd (clearPage pg c)) = getSizeBytes c - fst (clearPage pg c)"
  by (auto simp: wfMap_def clearPage_def clearCachePage_def getSizeBytes_def getCacheSize_delete split: option.splits)

lemma clearPage_wf: "wfMap c \<Longrightarrow> wfMap (snd (clearPage pg c))"
  by (auto simp: wfMap_def clearPage_def clearCachePage_def distinct_delete split: option.splits)

lemma CacheMap_updateCache_data [simp]:
  "data (snd (CacheMap_updateCache pg c)) = data c"
  by (simp add: CacheMap_updateCache_def)

lemma CacheMap_updateCache_wf [simp]: "wfMap (snd (CacheMap_updateCache pg c)) = wfMap c"
  by (simp add: wfMap_def)

lemma CacheMap_updateCache_size [simp]:
  "getSizeBytes (snd (CacheMap_updateCache pg c)) = getSizeBytes c"
  by (simp add: getSizeBytes_def)

lemma CacheMap_receive_wf: "wfMap c \<Longrightarrow> wfMap (snd (CacheMap_receive b c))"
  by (auto simp: CacheMap_receive_def wfMap_def distinct_update split: option.splits)

lemma CacheMap_receive_size:
  "getSizeBytes (snd (CacheMap_receive b c)) = getSizeBytes c + fst (CacheMap_receive b c)"
  by (auto simp: CacheMap_receive_def getSizeBytes_def contains_def getCacheSize_update split: option.splits)

lemma CacheMap_clearCache_wf [simp]: "wfMap (CacheMap_clearCache c)"
  by (simp add: CacheMap_clearCache_def wfMap_def clearCache_def)

lemma CacheMap_clearCache_size [simp]: "getSizeBytes (CacheMap_clearCache c) = 0"
  by (simp add: CacheMap_clearCache_def getSizeBytes_def clearCache_def getCacheSize_def)

lemma getSizeBytes_nonneg: "0 \<le> getSizeBytes c"
  by (simp add: getSizeBytes_def getCacheSize_nonneg)

subsection \<open>The bytes accounted for\<close>

text \<open>
  No operation of the control screen lets \<open>cacheSize\<close> fall below the bytes that the
  cache maps hold: freeing a page takes from both what the entry had, an image that
  arrives adds to both, clearing a cache map only lowers the bytes held, and
  \<^verbatim>\<open>updateCache\<close> sets \<open>cacheSize\<close> to the bytes held when there is a limit. The
  limits themselves never change.
\<close>

lemma freeCachePage_keeps:
  assumes "wellFormed s"
  shows "wellFormed (snd (freeCachePage pg s))"
    and "surplus (snd (freeCachePage pg s)) = surplus s"
    and "budgetOf (snd (freeCachePage pg s)) = budgetOf s"
  using assms
  by (auto simp: freeCachePage_def Let_def wellFormed_def surplus_def totalBytes_def budgetOf_def
      clearPage_size clearPage_wf split: option.splits)

lemma cachePage_keeps:
  "wellFormed (cachePage pg s) = wellFormed s"
  "surplus (cachePage pg s) = surplus s"
  "budgetOf (cachePage pg s) = budgetOf s"
  by (simp_all add: cachePage_def Let_def wellFormed_def surplus_def totalBytes_def budgetOf_def
      split: option.splits)

lemma selectPage_keeps:
  "wellFormed (selectPage s) = wellFormed s"
  "surplus (selectPage s) = surplus s"
  "budgetOf (selectPage s) = budgetOf s"
proof -
  have a: "wellFormed (t\<lparr>cacheTimer := b\<rparr>) = wellFormed t" "wellFormed (t\<lparr>first_cached := x\<rparr>) = wellFormed t"
     "wellFormed (t\<lparr>last_cached := x\<rparr>) = wellFormed t" for t b x
    by (simp_all add: wellFormed_def)
  have b: "surplus (t\<lparr>cacheTimer := b\<rparr>) = surplus t" "surplus (t\<lparr>first_cached := x\<rparr>) = surplus t"
     "surplus (t\<lparr>last_cached := x\<rparr>) = surplus t" for t b x
    by (simp_all add: surplus_def totalBytes_def)
  have c: "budgetOf (t\<lparr>cacheTimer := b\<rparr>) = budgetOf t" "budgetOf (t\<lparr>first_cached := x\<rparr>) = budgetOf t"
     "budgetOf (t\<lparr>last_cached := x\<rparr>) = budgetOf t" for t b x
    by (simp_all add: budgetOf_def)
  show "wellFormed (selectPage s) = wellFormed s" by (simp add: selectPage_def cachePage_keeps a)
  show "surplus (selectPage s) = surplus s" by (simp add: selectPage_def cachePage_keeps b)
  show "budgetOf (selectPage s) = budgetOf s" by (simp add: selectPage_def cachePage_keeps c)
qed

lemma threadDelivers_keeps:
  assumes "wellFormed s"
  shows "wellFormed (threadDelivers st b s)"
    and "surplus (threadDelivers st b s) = surplus s"
    and "budgetOf (threadDelivers st b s) = budgetOf s"
  using assms
  by (cases st; auto simp: threadDelivers_def getStore_def setStore_def cacheThreadFinished_def
      updateCacheSize_def Let_def wellFormed_def surplus_def totalBytes_def budgetOf_def
      CacheMap_receive_wf CacheMap_receive_size split: option.splits)+

lemma widgetResized_keeps:
  assumes "wellFormed s"
  shows "wellFormed (widgetResized st s)"
    and "surplus s \<le> surplus (widgetResized st s)"
    and "budgetOf (widgetResized st s) = budgetOf s"
  using assms
  by (cases st; auto simp: widgetResized_def getStore_def setStore_def
      wellFormed_def surplus_def totalBytes_def budgetOf_def getSizeBytes_nonneg
      split: option.splits)+

lemma freeCachePage_enough:
  "fst (freeCachePage pg s) \<Longrightarrow> enoughFreed (snd (freeCachePage pg s))"
  by (auto simp: freeCachePage_def Let_def split: option.splits if_splits)

lemma enoughFreed_mustFree: "enoughFreed s = (\<not> mustFree s)"
  by (auto simp: enoughFreed_def mustFree_def)

lemma regionCheck_keeps:
  "wellFormed (snd (regionCheck s)) = wellFormed s"
  "surplus (snd (regionCheck s)) = surplus s"
  "budgetOf (snd (regionCheck s)) = budgetOf s"
  by (simp_all add: regionCheck_def wellFormed_def surplus_def totalBytes_def budgetOf_def)

lemma freeBody_keeps:
  assumes "wellFormed s"
  shows "wellFormed (snd (freeBody s))"
    and "surplus (snd (freeBody s)) = surplus s"
    and "budgetOf (snd (freeBody s)) = budgetOf s"
proof -
  have a: "wellFormed (t\<lparr>last_delete := x\<rparr>) = wellFormed t" "wellFormed (t\<lparr>first_delete := x\<rparr>) = wellFormed t"
    "wellFormed (t\<lparr>last_cached := x\<rparr>) = wellFormed t" "wellFormed (t\<lparr>first_cached := x\<rparr>) = wellFormed t" for t x
    by (simp_all add: wellFormed_def)
  have b: "surplus (t\<lparr>last_delete := x\<rparr>) = surplus t" "surplus (t\<lparr>first_delete := x\<rparr>) = surplus t"
    "surplus (t\<lparr>last_cached := x\<rparr>) = surplus t" "surplus (t\<lparr>first_cached := x\<rparr>) = surplus t" for t x
    by (simp_all add: surplus_def totalBytes_def)
  have c: "budgetOf (t\<lparr>last_delete := x\<rparr>) = budgetOf t" "budgetOf (t\<lparr>first_delete := x\<rparr>) = budgetOf t"
    "budgetOf (t\<lparr>last_cached := x\<rparr>) = budgetOf t" "budgetOf (t\<lparr>first_cached := x\<rparr>) = budgetOf t" for t x
    by (simp_all add: budgetOf_def)
  note k = freeCachePage_keeps [OF assms]
  show "wellFormed (snd (freeBody s))"
    by (simp add: freeBody_def Let_def regionCheck_keeps a k)
  show "surplus (snd (freeBody s)) = surplus s"
    by (simp add: freeBody_def Let_def regionCheck_keeps b k)
  show "budgetOf (snd (freeBody s)) = budgetOf s"
    by (simp add: freeBody_def Let_def regionCheck_keeps c k)
qed

lemma freeBody_Break:
  "fst (freeBody s) = Break \<Longrightarrow> \<not> mustFree (snd (freeBody s))"
  by (auto simp: freeBody_def Let_def regionCheck_def freeCachePage_enough enoughFreed_mustFree [symmetric]
      split: if_splits)

lemma freeLoop_keeps:
  assumes run: "freeLoop s = Some r"
  shows "wellFormed s \<longrightarrow>
     (wellFormed (snd r) \<and> surplus (snd r) = surplus s \<and> budgetOf (snd r) = budgetOf s
      \<and> (\<not> fst r \<longrightarrow> \<not> mustFree (snd r)))"
proof (rule freeLoop.raw_induct
    [where P = "\<lambda>s r. wellFormed s \<longrightarrow>
     (wellFormed (snd r) \<and> surplus (snd r) = surplus s \<and> budgetOf (snd r) = budgetOf s
      \<and> (\<not> fst r \<longrightarrow> \<not> mustFree (snd r)))"])
  show "freeLoop s = Some r" by (rule run)
next
  fix loop :: "ControlScreen \<Rightarrow> (bool \<times> ControlScreen) option" and s r
  assume IH: "\<And>x y. loop x = Some y \<Longrightarrow>
      wellFormed x \<longrightarrow>
        (wellFormed (snd y) \<and> surplus (snd y) = surplus x \<and> budgetOf (snd y) = budgetOf x
         \<and> (\<not> fst y \<longrightarrow> \<not> mustFree (snd y)))"
  assume eq: "(if mustFree s then
        (case freeBody s of
           (Continue, s') \<Rightarrow> loop s'
         | (Break, s') \<Rightarrow> Some (False, s')
         | (Return, s') \<Rightarrow> Some (True, s'))
      else Some (False, s)) = Some r"
  show "wellFormed s \<longrightarrow>
     (wellFormed (snd r) \<and> surplus (snd r) = surplus s \<and> budgetOf (snd r) = budgetOf s
      \<and> (\<not> fst r \<longrightarrow> \<not> mustFree (snd r)))"
  proof
    assume wf: "wellFormed s"
    show "wellFormed (snd r) \<and> surplus (snd r) = surplus s \<and> budgetOf (snd r) = budgetOf s
      \<and> (\<not> fst r \<longrightarrow> \<not> mustFree (snd r))"
    proof (cases "mustFree s")
      case False
      with eq wf show ?thesis by auto
    next
      case True
      obtain ctl t where bt: "freeBody s = (ctl, t)" by (cases "freeBody s")
      from freeBody_keeps [OF wf] bt
      have k: "wellFormed t" "surplus t = surplus s" "budgetOf t = budgetOf s" by simp_all
      show ?thesis
      proof (cases ctl)
        case Continue
        with True bt eq have "loop t = Some r" by simp
        from IH [OF this] k show ?thesis by simp
      next
        case Break
        with True bt eq have r: "r = (False, t)" by simp
        from Break bt freeBody_Break [of s] have "\<not> mustFree t" by simp
        with r k show ?thesis by simp
      next
        case Return
        with True bt eq have r: "r = (True, t)" by simp
        with k show ?thesis by simp
      qed
    qed
  qed
qed


lemma wellFormed_frame [simp]:
  "wellFormed (s\<lparr>cacheTimer := b\<rparr>) = wellFormed s"
  "wellFormed (s\<lparr>cacheSize := n\<rparr>) = wellFormed s"
  "wellFormed (s\<lparr>currentPageNumber := n\<rparr>) = wellFormed s"
  "wellFormed (s\<lparr>first_cached := n\<rparr>) = wellFormed s"
  "wellFormed (s\<lparr>last_cached := n\<rparr>) = wellFormed s"
  "wellFormed (s\<lparr>first_delete := n\<rparr>) = wellFormed s"
  "wellFormed (s\<lparr>last_delete := n\<rparr>) = wellFormed s"
  by (simp_all add: wellFormed_def)

lemma totalBytes_frame [simp]:
  "totalBytes (s\<lparr>cacheTimer := b\<rparr>) = totalBytes s"
  "totalBytes (s\<lparr>cacheSize := n\<rparr>) = totalBytes s"
  "totalBytes (s\<lparr>currentPageNumber := n\<rparr>) = totalBytes s"
  "totalBytes (s\<lparr>first_cached := n\<rparr>) = totalBytes s"
  "totalBytes (s\<lparr>last_cached := n\<rparr>) = totalBytes s"
  "totalBytes (s\<lparr>first_delete := n\<rparr>) = totalBytes s"
  "totalBytes (s\<lparr>last_delete := n\<rparr>) = totalBytes s"
  by (simp_all add: totalBytes_def)

lemma clearAllCaches_keeps:
  "wellFormed (clearAllCaches s)" "totalBytes (clearAllCaches s) = 0"
  "cacheSize (clearAllCaches s) = cacheSize s" "maxCacheSize (clearAllCaches s) = maxCacheSize s"
  by (simp_all add: clearAllCaches_def wellFormed_def totalBytes_def split: option.splits)

lemma totalBytes_nonneg: "0 \<le> totalBytes s"
  by (simp add: totalBytes_def getSizeBytes_nonneg split: option.splits)

lemma resetRegion_keeps [simp]:
  "wellFormed (resetRegion s) = wellFormed s" "totalBytes (resetRegion s) = totalBytes s"
  "cacheSize (resetRegion s) = cacheSize s" "maxCacheSize (resetRegion s) = maxCacheSize s"
  by (simp_all add: resetRegion_def)

lemma widenDelete_keeps [simp]:
  "wellFormed (widenDelete n s) = wellFormed s" "totalBytes (widenDelete n s) = totalBytes s"
  "cacheSize (widenDelete n s) = cacheSize s" "maxCacheSize (widenDelete n s) = maxCacheSize s"
  by (simp_all add: widenDelete_def Let_def)

lemma updateCache_keeps: "accounted s \<Longrightarrow> accounted (ControlScreen_updateCache s)"
proof -
  assume a: "accounted s"
  have "0 \<le> totalBytes s" by (rule totalBytes_nonneg)
  with a show ?thesis
    by (auto simp: accounted_def surplus_def ControlScreen_updateCache_def Let_def clearAllCaches_keeps)
qed

lemma updateCache_starts:
  "wellFormed s \<Longrightarrow> \<not> cacheTimer s \<Longrightarrow> cacheTimer (ControlScreen_updateCache s)
   \<Longrightarrow> accounted (ControlScreen_updateCache s)"
  by (auto simp: accounted_def surplus_def ControlScreen_updateCache_def Let_def clearAllCaches_def
      split: if_splits)

lemma renderPage_keeps: "accounted (ControlScreen_renderPage p s) = accounted s"
  by (simp add: accounted_def surplus_def ControlScreen_renderPage_def)

lemma updateCacheStep_keeps:
  assumes "updateCacheStep s = Some s'" and "accounted s"
  shows "accounted s'"
proof -
  have stop: "accounted (s\<lparr>cacheTimer := False\<rparr>)"
    using assms(2) by (simp add: accounted_def surplus_def)
  show ?thesis
  proof (cases "allCached s \<or> regionBroken s")
    case True
    with assms(1) stop show ?thesis by (auto simp: updateCacheStep_def split: if_splits)
  next
    case False
    with assms(1) obtain r where r: "freeLoop s = Some r"
      and s': "s' = (if fst r then snd r else selectPage (snd r))"
      by (cases "freeLoop s") (auto simp: updateCacheStep_def split: bool.splits)
    from freeLoop_keeps [OF r] assms(2)
    have "wellFormed (snd r)" "surplus (snd r) = surplus s" "budgetOf (snd r) = budgetOf s"
      by (simp_all add: accounted_def)
    moreover have "maxCacheSize (selectPage (snd r)) = maxCacheSize (snd r)"
      using selectPage_keeps(3) [of "snd r"] by (simp add: budgetOf_def)
    ultimately show ?thesis using assms(2) s'
      by (simp add: accounted_def selectPage_keeps budgetOf_def)
  qed
qed

lemma occur_keeps: "occur e s = Some s' \<Longrightarrow> accounted s \<Longrightarrow> accounted s'"
proof (cases e)
  case TimerTick
  assume "occur e s = Some s'" and "accounted s"
  with TimerTick show ?thesis
    by (auto intro: updateCacheStep_keeps split: if_splits)
next
  case (ThreadDelivers st bytes)
  assume "occur e s = Some s'" and "accounted s"
  with ThreadDelivers threadDelivers_keeps [of s st bytes] show ?thesis
    by (auto simp: accounted_def budgetOf_def)
next
  case (NewPageNumber pageNumber)
  assume "occur e s = Some s'" and "accounted s"
  with NewPageNumber show ?thesis
    by (auto simp: receiveNewPageNumber_def updateCache_keeps renderPage_keeps)
next
  case (WidgetResized st)
  assume "occur e s = Some s'" and "accounted s"
  with WidgetResized widgetResized_keeps [of s st] show ?thesis
    by (auto simp: accounted_def budgetOf_def)
qed

lemma run_keeps: "run es s = Some s' \<Longrightarrow> accounted s \<Longrightarrow> accounted s'"
proof (induction es arbitrary: s)
  case Nil
  then show ?case by simp
next
  case (Cons e es)
  from Cons.prems(1) obtain t where t: "occur e s = Some t" and r: "run es t = Some s'"
    by (cases "occur e s") simp_all
  from occur_keeps [OF t Cons.prems(2)] have "accounted t" .
  from Cons.IH [OF r this] show ?case .
qed

lemma budgetOf_frame [simp]:
  "budgetOf (s\<lparr>cacheTimer := b\<rparr>) = budgetOf s"
  "budgetOf (s\<lparr>cacheSize := n\<rparr>) = budgetOf s"
  "budgetOf (s\<lparr>currentPageNumber := n\<rparr>) = budgetOf s"
  by (simp_all add: budgetOf_def)

lemma updateCache_budget: "budgetOf (ControlScreen_updateCache s) = budgetOf s"
  by (simp add: ControlScreen_updateCache_def Let_def budgetOf_def clearAllCaches_def resetRegion_def
      widenDelete_def)

lemma updateCache_starts_budget:
  "\<not> cacheTimer s \<Longrightarrow> cacheTimer (ControlScreen_updateCache s) \<Longrightarrow> maxCacheSize s \<noteq> 0"
  by (auto simp: ControlScreen_updateCache_def clearAllCaches_def)

lemma updateCacheStep_budget:
  assumes "updateCacheStep s = Some s'" and "accounted s"
  shows "budgetOf s' = budgetOf s"
proof (cases "allCached s \<or> regionBroken s")
  case True
  with assms(1) show ?thesis by (auto simp: updateCacheStep_def split: if_splits)
next
  case False
  with assms(1) obtain r where r: "freeLoop s = Some r"
    and s': "s' = (if fst r then snd r else selectPage (snd r))"
    by (cases "freeLoop s") (auto simp: updateCacheStep_def split: bool.splits)
  from freeLoop_keeps [OF r] assms(2) have "budgetOf (snd r) = budgetOf s"
    by (simp add: accounted_def)
  with s' show ?thesis by (simp add: selectPage_keeps)
qed

lemma occur_budget: "occur e s = Some s' \<Longrightarrow> accounted s \<Longrightarrow> budgetOf s' = budgetOf s"
proof (cases e)
  case TimerTick
  assume "occur e s = Some s'" and "accounted s"
  with TimerTick show ?thesis
    by (auto intro: updateCacheStep_budget split: if_splits)
next
  case (ThreadDelivers st bytes)
  assume "occur e s = Some s'" and "accounted s"
  with ThreadDelivers threadDelivers_keeps(3) [of s st bytes] show ?thesis
    by (auto simp: accounted_def)
next
  case (NewPageNumber pageNumber)
  assume "occur e s = Some s'" and "accounted s"
  with NewPageNumber show ?thesis
    by (auto simp: receiveNewPageNumber_def updateCache_budget ControlScreen_renderPage_def)
next
  case (WidgetResized st)
  assume "occur e s = Some s'" and "accounted s"
  with WidgetResized widgetResized_keeps(3) [of s st] show ?thesis
    by (auto simp: accounted_def)
qed

lemma run_budget: "run es s = Some s' \<Longrightarrow> accounted s \<Longrightarrow> budgetOf s' = budgetOf s"
proof (induction es arbitrary: s)
  case Nil
  then show ?case by simp
next
  case (Cons e es)
  from Cons.prems(1) obtain t where t: "occur e s = Some t" and r: "run es t = Some s'"
    by (cases "occur e s") simp_all
  from occur_keeps [OF t Cons.prems(2)] have "accounted t" .
  from Cons.IH [OF r this] occur_budget [OF t Cons.prems(2)] show ?case by simp
qed

lemma cachePage_region [simp]:
  "first_cached (cachePage pg s) = first_cached s"
  "last_cached (cachePage pg s) = last_cached s"
  "first_delete (cachePage pg s) = first_delete s"
  "last_delete (cachePage pg s) = last_delete s"
  by (simp_all add: cachePage_def Let_def split: option.splits)


subsection \<open>The document of four pages, step by step\<close>

lemma freeLoop_done: "\<not> mustFree s \<Longrightarrow> freeLoop s = Some (False, s)"
  by (subst freeLoop.simps) simp

lemma updateCache_fourPages: "ControlScreen_updateCache fourPages = fourPages\<lparr>cacheTimer := True\<rparr>"
  by (simp add: ControlScreen_updateCache_def fourPages_def Let_def allCached_def CacheMap_length_def
      idle_def totalBytes_def getSizeBytes_def getCacheSize_def widenDelete_def)

lemma freeBody_fourPages: "freeBody (fourPages\<lparr>cacheTimer := True\<rparr>) = (Continue, freed)"
  by (simp add: freeBody_def freeCachePage_def Let_def regionCheck_def enoughFreed_def clearPage_def
      clearCachePage_def fourPages_def freed_def idle_def CacheMap_length_def)

lemma freeLoop_fourPages: "freeLoop (fourPages\<lparr>cacheTimer := True\<rparr>) = Some (False, freed)"
proof -
  have "mustFree (fourPages\<lparr>cacheTimer := True\<rparr>)" by (simp add: mustFree_def fourPages_def)
  moreover have "\<not> mustFree freed"
    by (simp add: mustFree_def freed_def fourPages_def)
  ultimately show ?thesis
    by (subst freeLoop.simps) (simp add: freeBody_fourPages freeLoop_done)
qed

lemma step_fourPages:
  "updateCacheStep (fourPages\<lparr>cacheTimer := True\<rparr>) = Some (cachePage 3 (freed\<lparr>last_cached := 3\<rparr>))"
proof -
  have "\<not> allCached (fourPages\<lparr>cacheTimer := True\<rparr>)" "\<not> regionBroken (fourPages\<lparr>cacheTimer := True\<rparr>)"
    by (simp_all add: allCached_def regionBroken_def fourPages_def CacheMap_length_def idle_def)
  moreover have "selectPage freed = cachePage 3 (freed\<lparr>last_cached := 3\<rparr>)"
    by (simp add: selectPage_def as_int_def as_qint64_def freed_def fourPages_def
        CacheMap_length_def idle_def)
  ultimately show ?thesis
    by (simp add: updateCacheStep_def freeLoop_fourPages)
qed

lemma run_fourPages:
  "run [TimerTick, ThreadDelivers SlideStore ''s3'', ThreadDelivers NotesStore ''d'',
        ThreadDelivers PreviewStore ''p''] (fourPages\<lparr>cacheTimer := True\<rparr>) = Some refilled"
  apply (simp add: step_fourPages)
  apply (simp add: cachePage_def Let_def countThread_def CacheMap_updateCache_def contains_def
      freed_def fourPages_def idle_def)
  apply (simp add: threadDelivers_def getStore_def setStore_def CacheMap_receive_def contains_def
      updateCacheSize_def cacheThreadFinished_def Let_def refilled_def freed_def fourPages_def idle_def)
  done

lemma freeBody_refilled: "freeBody refilled = (Continue, freedAgain)"
  by (simp add: freeBody_def freeCachePage_def Let_def regionCheck_def enoughFreed_def clearPage_def
      clearCachePage_def fourPages_def freed_def refilled_def freedAgain_def idle_def CacheMap_length_def)

lemma freeLoop_refilled: "freeLoop refilled = Some (False, freedAgain)"
proof -
  have "mustFree refilled" by (simp add: mustFree_def refilled_def freed_def fourPages_def)
  moreover have "\<not> mustFree freedAgain"
    by (simp add: mustFree_def freedAgain_def freed_def fourPages_def)
  ultimately show ?thesis
    by (subst freeLoop.simps) (simp add: freeBody_refilled freeLoop_done)
qed

subsection \<open>What a pass of the loop changes\<close>

lemma clearPage_other:
  "q \<noteq> pg \<Longrightarrow> map_of (data (snd (clearPage pg c))) q = map_of (data c) q"
  by (simp add: clearPage_def clearCachePage_def delete_conv split: option.splits)

lemma clearPage_gone: "map_of (data (snd (clearPage pg c))) pg = None"
  by (simp add: clearPage_def clearCachePage_def delete_conv split: option.splits)

lemma freeCachePage_other:
  "q \<noteq> pg \<Longrightarrow> cachedAt (snd (freeCachePage pg s)) q = cachedAt s q"
  by (simp add: freeCachePage_def Let_def cachedAt_def clearPage_other split: option.splits)

lemma freeCachePage_first:
  "(case drawSlideCache (snd (freeCachePage pg s)) of
      Some d \<Rightarrow> \<not> contains (data d) pg
    | None \<Rightarrow> \<not> contains (data (notesCache (snd (freeCachePage pg s)))) pg)"
  by (simp add: freeCachePage_def Let_def contains_def clearPage_gone split: option.splits)

lemma freeCachePage_all:
  "\<not> fst (freeCachePage pg s) \<Longrightarrow>
   cachedAt (snd (freeCachePage pg s)) pg =
     (None, None, None, map_option (\<lambda>x. None) (previewCacheX s), map_option (\<lambda>d. None) (drawSlideCache s))"
  by (simp add: freeCachePage_def Let_def cachedAt_def clearPage_gone split: option.splits if_splits)

lemma freeCachePage_region:
  "region (snd (freeCachePage pg s)) = region s"
  "currentPageNumber (snd (freeCachePage pg s)) = currentPageNumber s"
  by (simp_all add: freeCachePage_def Let_def region_def split: option.splits)

lemma cachedAt_frame [simp]:
  "cachedAt (s\<lparr>cacheTimer := b\<rparr>) = cachedAt s"
  "cachedAt (s\<lparr>first_cached := n\<rparr>) = cachedAt s"
  "cachedAt (s\<lparr>last_cached := n\<rparr>) = cachedAt s"
  "cachedAt (s\<lparr>first_delete := n\<rparr>) = cachedAt s"
  "cachedAt (s\<lparr>last_delete := n\<rparr>) = cachedAt s"
  by (simp_all add: cachedAt_def fun_eq_iff)

lemma drawSlideCache_frame [simp]:
  "drawSlideCache (snd (regionCheck s)) = drawSlideCache s"
  "notesCache (snd (regionCheck s)) = notesCache s"
  "cachedAt (snd (regionCheck s)) = cachedAt s"
  "fst (regionCheck s) \<noteq> Break"
  by (simp_all add: regionCheck_def)

lemma freeBody_tail:
  assumes "last_delete s > 4 * currentPageNumber s - 3 * first_delete s"
  shows "cachedAt (snd (freeBody s)) = cachedAt (snd (freeCachePage (last_delete s) s))"
    and "drawSlideCache (snd (freeBody s)) = drawSlideCache (snd (freeCachePage (last_delete s) s))"
    and "notesCache (snd (freeBody s)) = notesCache (snd (freeCachePage (last_delete s) s))"
    and "(fst (freeBody s) = Break) = fst (freeCachePage (last_delete s) s)"
  using assms by (simp_all add: freeBody_def Let_def)

lemma freeBody_head:
  assumes "\<not> last_delete s > 4 * currentPageNumber s - 3 * first_delete s"
  shows "cachedAt (snd (freeBody s)) = cachedAt (snd (freeCachePage (first_delete s) s))"
    and "drawSlideCache (snd (freeBody s)) = drawSlideCache (snd (freeCachePage (first_delete s) s))"
    and "notesCache (snd (freeBody s)) = notesCache (snd (freeCachePage (first_delete s) s))"
    and "(fst (freeBody s) = Break) = fst (freeCachePage (first_delete s) s)"
  using assms by (simp_all add: freeBody_def Let_def)

lemma freeBody_window_kept:
  assumes "first_delete s \<le> first_cached s" and "last_cached s \<le> last_delete s"
  shows "first_delete (snd (freeBody s)) \<le> first_cached (snd (freeBody s))"
    and "last_cached (snd (freeBody s)) \<le> last_delete (snd (freeBody s))"
    and "fst (freeBody s) \<noteq> Return"
  using assms freeCachePage_region(1) [of "last_delete s" s] freeCachePage_region(1) [of "first_delete s" s]
  by (auto simp: freeBody_def Let_def regionCheck_def region_def)

lemma lengths_clearAllCaches: "set (lengths (clearAllCaches s)) \<subseteq> {0}"
  by (auto simp: lengths_def clearAllCaches_def CacheMap_length_def CacheMap_clearCache_def clearCache_def
      split: option.splits)

lemma apply_ops_append: "apply_ops (xs @ ys) c = apply_ops ys (apply_ops xs c)"
  by (induction xs arbitrary: c) simp_all


subsection \<open>The loop ends\<close>

text \<open>
  In a state that satisfies \<^const>\<open>canFree\<close> the loop ends: a pass that goes on moves a
  delete boundary by one and removes the page there from every cache map, so after
  both boundaries have left the document nothing is cached and the condition of the
  loop is false. Where the step lets the loop start, the loop never ends the step: the
  test after which it would return cannot hold after the bounds were clamped.
\<close>

lemma clearPage_keys:
  "fst ` set (data (snd (clearPage pg c))) = fst ` set (data c) - {pg}"
proof -
  have "set (map fst (AList.delete pg (data c))) = set (map fst (data c)) - {pg}"
    by (simp add: delete_keys)
  moreover have "map_of (data c) pg = None \<Longrightarrow> pg \<notin> fst ` set (data c)"
    by (simp add: map_of_eq_None_iff)
  ultimately show ?thesis
    by (auto simp: clearPage_def clearCachePage_def split: option.splits)
qed

lemma freeCachePage_keys:
  "keysOf (snd (freeCachePage pg s)) \<subseteq> keysOf s"
  "\<not> fst (freeCachePage pg s) \<Longrightarrow> pg \<notin> keysOf (snd (freeCachePage pg s))"
  by (auto simp: freeCachePage_def Let_def keysOf_def clearPage_keys split: option.splits if_splits)

lemma keysOf_frame [simp]:
  "keysOf (s\<lparr>cacheTimer := b\<rparr>) = keysOf s"
  "keysOf (s\<lparr>first_cached := n\<rparr>) = keysOf s"
  "keysOf (s\<lparr>last_cached := n\<rparr>) = keysOf s"
  "keysOf (s\<lparr>first_delete := n\<rparr>) = keysOf s"
  "keysOf (s\<lparr>last_delete := n\<rparr>) = keysOf s"
  by (simp_all add: keysOf_def)

lemma keysOf_empty:
  assumes "keysOf s = {}"
  shows "totalBytes s = 0" and "CacheMap_length (slideCache s) = 0"
  using assms
  by (auto simp: keysOf_def totalBytes_def getSizeBytes_def getCacheSize_def CacheMap_length_def
      split: option.splits)


lemma freeCachePage_frame:
  "numberOfPages (snd (freeCachePage pg s)) = numberOfPages s"
  "maxCacheNumber (snd (freeCachePage pg s)) = maxCacheNumber s"
  "maxCacheSize (snd (freeCachePage pg s)) = maxCacheSize s"
  "currentPageNumber (snd (freeCachePage pg s)) = currentPageNumber s"
  "first_delete (snd (freeCachePage pg s)) = first_delete s"
  "last_delete (snd (freeCachePage pg s)) = last_delete s"
  "first_cached (snd (freeCachePage pg s)) = first_cached s"
  "last_cached (snd (freeCachePage pg s)) = last_cached s"
  by (simp_all add: freeCachePage_def Let_def split: option.splits)

lemma freeBody_frame:
  "numberOfPages (snd (freeBody s)) = numberOfPages s"
  "maxCacheNumber (snd (freeBody s)) = maxCacheNumber s"
  "maxCacheSize (snd (freeBody s)) = maxCacheSize s"
  "currentPageNumber (snd (freeBody s)) = currentPageNumber s"
  by (simp_all add: freeBody_def Let_def regionCheck_def freeCachePage_frame)

lemma freeBody_keys:
  "keysOf (snd (freeBody s)) \<subseteq> keysOf s"
  using freeCachePage_keys(1) [of "last_delete s" s] freeCachePage_keys(1) [of "first_delete s" s]
  by (simp add: freeBody_def Let_def regionCheck_def)

lemma freeBody_Continue:
  assumes "fst (freeBody s) = Continue"
  shows "if last_delete s > 4 * currentPageNumber s - 3 * first_delete s
         then last_delete (snd (freeBody s)) = last_delete s - 1
              \<and> first_delete (snd (freeBody s)) = first_delete s
              \<and> last_delete s \<notin> keysOf (snd (freeBody s))
         else first_delete (snd (freeBody s)) = first_delete s + 1
              \<and> last_delete (snd (freeBody s)) = last_delete s
              \<and> first_delete s \<notin> keysOf (snd (freeBody s))"
  using assms freeCachePage_keys(2) [of "last_delete s" s] freeCachePage_keys(2) [of "first_delete s" s]
  by (auto simp: freeBody_def Let_def regionCheck_def freeCachePage_frame split: if_splits)

lemma canFree_done:
  assumes "canFree s" and "numberOfPages s \<le> first_delete s" and "last_delete s < 0"
  shows "\<not> mustFree s"
proof -
  from assms have "keysOf s = {}" by (fastforce simp: canFree_def)
  from keysOf_empty [OF this] assms(1) show ?thesis
    by (simp add: mustFree_def canFree_def surplus_def)
qed

lemma freeBody_canFree:
  assumes "canFree s" and "fst (freeBody s) = Continue"
  shows "canFree (snd (freeBody s))"
proof -
  from assms(1) have wf: "wellFormed s" by (simp add: canFree_def)
  note k = freeBody_keeps [OF wf] freeBody_frame [of s] freeBody_Continue [OF assms(2)]
  have "\<forall>k \<in> keysOf (snd (freeBody s)). 0 \<le> k \<and> k < numberOfPages s
          \<and> (first_delete (snd (freeBody s)) \<le> k \<or> k \<le> last_delete (snd (freeBody s)))"
  proof
    fix q assume q: "q \<in> keysOf (snd (freeBody s))"
    with freeBody_keys [of s] have "q \<in> keysOf s" by blast
    with assms(1) have r: "0 \<le> q" "q < numberOfPages s" "first_delete s \<le> q \<or> q \<le> last_delete s"
      by (auto simp: canFree_def)
    from q k(8) have "q \<noteq> (if last_delete s > 4 * currentPageNumber s - 3 * first_delete s
                             then last_delete s else first_delete s)"
      by (auto split: if_splits)
    with r k(8) show "0 \<le> q \<and> q < numberOfPages s
          \<and> (first_delete (snd (freeBody s)) \<le> q \<or> q \<le> last_delete (snd (freeBody s)))"
      by (auto split: if_splits)
  qed
  with assms(1) k(1-7) show ?thesis
    by (simp add: canFree_def budgetOf_def)
qed

lemma freeBody_passesLeft:
  assumes "canFree s" and "mustFree s" and "fst (freeBody s) = Continue"
  shows "(passesLeft (snd (freeBody s)), passesLeft s) \<in> less_than <*lex*> less_than"
proof (cases "numberOfPages s \<le> first_delete s \<and> last_delete s < 0")
  case True
  with canFree_done [OF assms(1)] assms(2) show ?thesis by simp
next
  case False
  with freeBody_Continue [OF assms(3)] freeBody_frame [of s] show ?thesis
    by (auto simp: passesLeft_def split: if_splits)
qed

lemma wf_passesLeft: "wf (inv_image (less_than <*lex*> less_than) passesLeft)"
  by (intro wf_inv_image wf_lex_prod wf_less_than)

lemma freeLoop_ends: "canFree s \<Longrightarrow> \<exists>r. freeLoop s = Some r"
proof (induction s rule: wf_induct_rule [OF wf_passesLeft])
  case (1 s)
  show ?case
  proof (cases "mustFree s")
    case False
    then have "freeLoop s = Some (False, s)" by (rule freeLoop_done)
    then show ?thesis by blast
  next
    case True
    show ?thesis
    proof (cases "fst (freeBody s)")
      case Continue
      from freeBody_passesLeft [OF "1.prems" True Continue]
      have "(snd (freeBody s), s) \<in> inv_image (less_than <*lex*> less_than) passesLeft"
        by simp
      from "1.IH" [OF this freeBody_canFree [OF "1.prems" Continue]]
      have "\<exists>r. freeLoop (snd (freeBody s)) = Some r" .
      moreover from True Continue have "freeLoop s = freeLoop (snd (freeBody s))"
        by (subst freeLoop.simps) (simp add: split_beta)
      ultimately show ?thesis by simp
    next
      case Break
      with True have "freeLoop s = Some (False, snd (freeBody s))"
        by (subst freeLoop.simps) (simp add: split_beta)
      then show ?thesis by blast
    next
      case Return
      with True have "freeLoop s = Some (True, snd (freeBody s))"
        by (subst freeLoop.simps) (simp add: split_beta)
      then show ?thesis by blast
    qed
  qed
qed

lemma freeLoop_no_return:
  assumes run: "freeLoop s = Some r"
  shows "first_delete s \<le> first_cached s \<and> last_cached s \<le> last_delete s \<longrightarrow> \<not> fst r"
proof (rule freeLoop.raw_induct
    [where P = "\<lambda>s r. first_delete s \<le> first_cached s \<and> last_cached s \<le> last_delete s \<longrightarrow> \<not> fst r"])
  show "freeLoop s = Some r" by (rule run)
next
  fix loop :: "ControlScreen \<Rightarrow> (bool \<times> ControlScreen) option" and s r
  assume IH: "\<And>x y. loop x = Some y \<Longrightarrow>
      first_delete x \<le> first_cached x \<and> last_cached x \<le> last_delete x \<longrightarrow> \<not> fst y"
  assume eq: "(if mustFree s then
        (case freeBody s of
           (Continue, s') \<Rightarrow> loop s'
         | (Break, s') \<Rightarrow> Some (False, s')
         | (Return, s') \<Rightarrow> Some (True, s'))
      else Some (False, s)) = Some r"
  show "first_delete s \<le> first_cached s \<and> last_cached s \<le> last_delete s \<longrightarrow> \<not> fst r"
  proof
    assume w: "first_delete s \<le> first_cached s \<and> last_cached s \<le> last_delete s"
    then have k: "first_delete (snd (freeBody s)) \<le> first_cached (snd (freeBody s))"
      "last_cached (snd (freeBody s)) \<le> last_delete (snd (freeBody s))"
      "fst (freeBody s) \<noteq> Return"
      by (simp_all add: freeBody_window_kept)
    show "\<not> fst r"
    proof (cases "mustFree s")
      case False
      with eq show ?thesis by auto
    next
      case True
      obtain ctl t where bt: "freeBody s = (ctl, t)" by (cases "freeBody s")
      show ?thesis
      proof (cases ctl)
        case Continue
        with True bt eq have "loop t = Some r" by simp
        from IH [OF this] k bt show ?thesis by simp
      next
        case Break
        with True bt eq show ?thesis by auto
      next
        case Return
        with k bt show ?thesis by simp
      qed
    qed
  qed
qed

lemma freeLoop_ends_normally:
  assumes "canFree s" and "\<not> regionBroken s"
  shows "\<exists>s'. freeLoop s = Some (False, s')"
proof -
  from freeLoop_ends [OF assms(1)] obtain r where r: "freeLoop s = Some r" by blast
  from assms(2) have "first_delete s \<le> first_cached s \<and> last_cached s \<le> last_delete s"
    by (simp add: regionBroken_def)
  with freeLoop_no_return [OF r] have "\<not> fst r" by simp
  with r have "freeLoop s = Some (False, snd r)" by (cases r) simp
  then show ?thesis by blast
qed

lemma updateCacheStep_ends: "canFree s \<Longrightarrow> \<exists>t. updateCacheStep s = Some t"
proof -
  assume "canFree s"
  from freeLoop_ends [OF this] obtain r where "freeLoop s = Some r" by blast
  then show ?thesis
    by (cases r; cases "fst r") (auto simp: updateCacheStep_def)
qed

lemma canFree_fourPages: "canFree (fourPages\<lparr>cacheTimer := True\<rparr>)"
  by (simp add: canFree_def wellFormed_def wfMap_def keysOf_def surplus_def totalBytes_def
      getSizeBytes_def getCacheSize_def fourPages_def idle_def)

subsection \<open>Dispatching, and products that fit\<close>

text \<open>\<^verbatim>\<open>cachePage\<close> does what the spec calls dispatching a page.\<close>

lemma CacheMap_updateCache_startRender:
  "snd (CacheMap_updateCache pg c) = startRender pg c"
  "fst (CacheMap_updateCache pg c) = canStart pg c"
  by (auto simp: CacheMap_updateCache_def startRender_def canStart_def)

lemma countThread_of_bool:
  "countThread b s = s\<lparr>cacheThreadsRunning := cacheThreadsRunning s + of_bool b\<rparr>"
  by (simp add: countThread_def)

lemma count_filter_Cons:
  "int (length (filter P (x # xs))) = of_bool (P x) + int (length (filter P xs))"
  by simp

lemma filter_empty_count: "(filter P xs = []) = (int (length (filter P xs)) = 0)"
  by simp

lemma cachePage_dispatched: "cachePage pg s = dispatched pg s"
  by (cases "drawSlideCache s"; cases "previewCacheX s")
     (simp_all add: cachePage_def dispatched_def Let_def CacheMap_updateCache_startRender
        countThread_of_bool cacheMaps_def count_filter_Cons filter_empty_count
        del: filter.simps length_0_conv of_nat_eq_0_iff)

text \<open>A product that is within its type is the product.\<close>

lemma as_int_fits: "fits_int x \<Longrightarrow> as_int x = x"
  by (simp add: fits_int_def as_int_def)

lemma as_qint64_fits: "fits_qint64 x \<Longrightarrow> as_qint64 x = x"
  by (simp add: fits_qint64_def as_qint64_def)

lemma selectPage_forward:
  assumes "last_cached s + 1 < numberOfPages s" and "forwardTestFits s"
  shows "selectPage s =
     (if 2 * maxCacheSize s < 3 * cacheSize s
         \<and> 3 * (last_cached s - currentPageNumber s) * cacheSize s
             > 2 * CacheMap_length (slideCache s) * maxCacheSize s
         \<and> (maxCacheSize s - cacheSize s) * CacheMap_length (slideCache s) < 2 * cacheSize s
      then s\<lparr>cacheTimer := False\<rparr>
      else dispatched (last_cached s + 1) (s\<lparr>last_cached := last_cached s + 1\<rparr>))"
  using assms
  by (simp add: selectPage_def forwardTestFits_def as_int_fits as_qint64_fits cachePage_dispatched)

lemma selectPage_backward:
  assumes "last_cached s + 1 = numberOfPages s" and "backwardTestFits s"
  shows "selectPage s =
     (if first_cached s > first_delete s
         \<and> 2 * maxCacheSize s > 3 * cacheSize s
         \<and> (maxCacheNumber s = numberOfPages s
             \<or> 2 * maxCacheNumber s > 3 * CacheMap_length (slideCache s))
      then dispatched (first_cached s - 1) (s\<lparr>first_cached := first_cached s - 1\<rparr>)
      else s\<lparr>cacheTimer := False\<rparr>)"
  using assms
  by (auto simp: selectPage_def backwardTestFits_def as_int_fits as_qint64_fits cachePage_dispatched)

lemma dispatched_region [simp]:
  "first_cached (dispatched pg s) = first_cached s"
  "last_cached (dispatched pg s) = last_cached s"
  by (simp_all add: dispatched_def)

lemma forward_states_idle:
  "\<not> allCached roomy" "\<not> regionBroken roomy" "freeLoop roomy = Some (False, roomy)"
  "\<not> allCached stocked" "\<not> regionBroken stocked" "freeLoop stocked = Some (False, stocked)"
  "\<not> allCached hugeBudget" "\<not> regionBroken hugeBudget"
  "freeLoop hugeBudget = Some (False, hugeBudget)"
  "\<not> allCached crowded" "\<not> regionBroken crowded" "freeLoop crowded = Some (False, crowded)"
  by (simp_all add: freeLoop_done mustFree_def allCached_def regionBroken_def CacheMap_length_def
      roomy_def stocked_def hugeBudget_def crowded_def fourPages_def idle_def)

lemma backward_states_idle:
  "\<not> allCached atEnd" "\<not> regionBroken atEnd" "freeLoop atEnd = Some (False, atEnd)"
  "\<not> allCached stockedAtEnd" "\<not> regionBroken stockedAtEnd"
  "freeLoop stockedAtEnd = Some (False, stockedAtEnd)"
  "\<not> allCached hugeAtEnd" "\<not> regionBroken hugeAtEnd" "freeLoop hugeAtEnd = Some (False, hugeAtEnd)"
  "\<not> allCached aboveN" "\<not> regionBroken aboveN" "freeLoop aboveN = Some (False, aboveN)"
  "\<not> allCached atEndDone" "\<not> regionBroken atEndDone"
  "freeLoop atEndDone = Some (False, atEndDone)"
  by (simp_all add: freeLoop_done mustFree_def allCached_def regionBroken_def CacheMap_length_def
      atEnd_def stockedAtEnd_def hugeAtEnd_def aboveN_def atEndDone_def fourPages_def idle_def)

subsection \<open>The limits after the loop\<close>

text \<open>
  C1. Take any run of events from a state in which \<^verbatim>\<open>updateCache\<close> has just started
  the timer, and let the loop of a step end there without ending the step. Then the
  bytes in all cache maps are at most \<open>maxCacheSize\<close>, unless \<open>maxCacheSize\<close> is negative,
  which stands for no limit on the bytes (\<^verbatim>\<open>updateCache\<close> then keeps -8589934591 in
  \<open>cacheSize\<close>; with 0 it does not start the timer), and the cache map of the
  presentation slide holds at most \<open>maxCacheNumber\<close> pages, unless
  \<open>maxCacheNumber \<ge> numberOfPages\<close>. (When the loop ends is the subject of
  \<open>freeLoop_ends\<close> above.)
\<close>

theorem budget_holds_after_freeing:
  assumes "wellFormed s0" and "\<not> cacheTimer s0" and "cacheTimer (ControlScreen_updateCache s0)"
      and "run events (ControlScreen_updateCache s0) = Some s"
      and "freeLoop s = Some (False, s')"
  shows "(0 \<le> maxCacheSize s' \<longrightarrow> totalBytes s' \<le> maxCacheSize s')
       \<and> (maxCacheNumber s' \<ge> numberOfPages s' \<or> CacheMap_length (slideCache s') \<le> maxCacheNumber s')"
proof -
  from updateCache_starts [OF assms(1-3)] have a0: "accounted (ControlScreen_updateCache s0)" .
  from run_keeps [OF assms(4) a0] have a: "accounted s" .
  from run_budget [OF assms(4) a0] updateCache_budget [of s0] updateCache_starts_budget [OF assms(2,3)]
  have nz: "maxCacheSize s \<noteq> 0" by (simp add: budgetOf_def)
  from freeLoop_keeps [OF assms(5)] a
  have k: "surplus s' = surplus s" "budgetOf s' = budgetOf s" "\<not> mustFree s'"
    by (simp_all add: accounted_def)
  from a k nz show ?thesis
    by (auto simp: accounted_def budgetOf_def surplus_def mustFree_def)
qed

theorem budget_holds_after_freeing_witness:
  "wellFormed fourPages \<and> \<not> cacheTimer fourPages \<and> cacheTimer (ControlScreen_updateCache fourPages)
   \<and> run [TimerTick, ThreadDelivers SlideStore ''s3'', ThreadDelivers NotesStore ''d'',
           ThreadDelivers PreviewStore ''p''] (ControlScreen_updateCache fourPages) = Some refilled
   \<and> totalBytes refilled = 10
   \<and> freeLoop refilled = Some (False, freedAgain)
   \<and> maxCacheSize freedAgain = 7
   \<and> totalBytes freedAgain \<le> maxCacheSize freedAgain
   \<and> (maxCacheNumber freedAgain \<ge> numberOfPages freedAgain
       \<or> CacheMap_length (slideCache freedAgain) \<le> maxCacheNumber freedAgain)"
proof -
  have wf: "wellFormed fourPages"
    by (simp add: wellFormed_def wfMap_def fourPages_def idle_def)
  have off: "\<not> cacheTimer fourPages" by (simp add: fourPages_def)
  have on: "cacheTimer (ControlScreen_updateCache fourPages)" by (simp add: updateCache_fourPages)
  have r: "run [TimerTick, ThreadDelivers SlideStore ''s3'', ThreadDelivers NotesStore ''d'',
           ThreadDelivers PreviewStore ''p''] (ControlScreen_updateCache fourPages) = Some refilled"
    unfolding updateCache_fourPages by (rule run_fourPages)
  have t: "totalBytes refilled = 10"
    by (simp add: totalBytes_def getSizeBytes_def getCacheSize_def refilled_def
        freed_def fourPages_def idle_def)
  have m: "maxCacheSize freedAgain = 7" "0 \<le> maxCacheSize freedAgain"
    by (simp_all add: freedAgain_def freed_def fourPages_def)
  from budget_holds_after_freeing [OF wf off on r freeLoop_refilled] m wf off on r t freeLoop_refilled
  show ?thesis by blast
qed

subsection \<open>The page that is freed\<close>

text \<open>
  C2. A pass through the body of the loop frees the page \<open>last_delete\<close> if
  \<open>last_delete > 4 * currentPageNumber - 3 * first_delete\<close> and the page \<open>first_delete\<close>
  otherwise: no cache map changes at any other page, the first cache map in the order
  of \<^verbatim>\<open>freeCachePage\<close> (that of the draw slide if there is one, else that of the notes)
  has lost the page, and a pass that does not end in \<^verbatim>\<open>break\<close> has removed it from
  every cache map.
\<close>

theorem victim_is_tail_or_head:
  "(\<forall>q. q \<noteq> (if last_delete s > 4 * currentPageNumber s - 3 * first_delete s
                then last_delete s else first_delete s)
        \<longrightarrow> cachedAt (snd (freeBody s)) q = cachedAt s q)
   \<and> (case drawSlideCache (snd (freeBody s)) of
         Some d \<Rightarrow> \<not> contains (data d)
                       (if last_delete s > 4 * currentPageNumber s - 3 * first_delete s
                        then last_delete s else first_delete s)
       | None \<Rightarrow> \<not> contains (data (notesCache (snd (freeBody s))))
                       (if last_delete s > 4 * currentPageNumber s - 3 * first_delete s
                        then last_delete s else first_delete s))
   \<and> (fst (freeBody s) \<noteq> Break \<longrightarrow>
         cachedAt (snd (freeBody s))
           (if last_delete s > 4 * currentPageNumber s - 3 * first_delete s
            then last_delete s else first_delete s)
         = (None, None, None,
            map_option (\<lambda>x. None) (previewCacheX s), map_option (\<lambda>d. None) (drawSlideCache s)))"
proof (cases "last_delete s > 4 * currentPageNumber s - 3 * first_delete s")
  case True
  note b = freeBody_tail [OF True]
  from True freeCachePage_first [of "last_delete s" s] show ?thesis
    by (simp add: b freeCachePage_other freeCachePage_all split: option.splits)
next
  case False
  note b = freeBody_head [OF False]
  from False freeCachePage_first [of "first_delete s" s] show ?thesis
    by (simp add: b freeCachePage_other freeCachePage_all split: option.splits)
qed

theorem victim_is_tail_or_head_witness:
  "\<not> last_delete tight > 4 * currentPageNumber tight - 3 * first_delete tight
   \<and> first_delete tight = 0
   \<and> cachedAt (snd (freeBody tight)) 1 = cachedAt tight 1
   \<and> cachedAt (snd (freeBody tight)) 2 = cachedAt tight 2
   \<and> drawSlideCache (snd (freeBody tight)) = None
   \<and> \<not> contains (data (notesCache (snd (freeBody tight)))) 0
   \<and> fst (freeBody tight) = Break"
proof -
  have h: "\<not> last_delete tight > 4 * currentPageNumber tight - 3 * first_delete tight"
     "first_delete tight = 0"
    by (simp_all add: tight_def fourPages_def)
  have d: "drawSlideCache (snd (freeBody tight)) = None" "fst (freeBody tight) = Break"
    by (simp_all add: freeBody_def freeCachePage_def Let_def regionCheck_def enoughFreed_def clearPage_def
      clearCachePage_def fourPages_def tight_def idle_def CacheMap_length_def)
  from victim_is_tail_or_head [of tight] h d show ?thesis by simp
qed

subsection \<open>The boundaries after a page is freed\<close>

text \<open>
  C3, as amended. Inside the loop \<open>first_delete \<le> first_cached\<close> and
  \<open>last_cached \<le> last_delete\<close> hold (the step tests them before the loop, and a pass
  keeps them). A pass in which \<^verbatim>\<open>freeCachePage\<close> returns false moves the boundary of
  the side it freed (\<open>last_delete\<close> down by one or \<open>first_delete\<close> up by one) and leaves
  \<open>last_cached = min last_cached last_delete\<close> and
  \<open>first_cached = max first_cached first_delete\<close>. A pass in which \<^verbatim>\<open>freeCachePage\<close>
  returns true, because the limits are met, ends the loop at once: no boundary and no
  bound of the region changes.
\<close>

theorem boundary_moves_unless_break:
  assumes "first_delete s \<le> first_cached s" and "last_cached s \<le> last_delete s"
  shows "(fst (freeBody s) \<noteq> Break \<longrightarrow>
            (if last_delete s > 4 * currentPageNumber s - 3 * first_delete s
             then last_delete (snd (freeBody s)) = last_delete s - 1
                  \<and> first_delete (snd (freeBody s)) = first_delete s
             else first_delete (snd (freeBody s)) = first_delete s + 1
                  \<and> last_delete (snd (freeBody s)) = last_delete s)
            \<and> last_cached (snd (freeBody s)) = min (last_cached s) (last_delete (snd (freeBody s)))
            \<and> first_cached (snd (freeBody s)) = max (first_cached s) (first_delete (snd (freeBody s))))
       \<and> (fst (freeBody s) = Break \<longrightarrow> region (snd (freeBody s)) = region s)"
  using assms freeCachePage_region(1) [of "last_delete s" s] freeCachePage_region(1) [of "first_delete s" s]
  by (auto simp: freeBody_def Let_def regionCheck_def region_def)

theorem boundary_moves_unless_break_witness:
  "first_delete (fourPages\<lparr>cacheTimer := True\<rparr>) \<le> first_cached (fourPages\<lparr>cacheTimer := True\<rparr>)
   \<and> last_cached (fourPages\<lparr>cacheTimer := True\<rparr>) \<le> last_delete (fourPages\<lparr>cacheTimer := True\<rparr>)
   \<and> fst (freeBody (fourPages\<lparr>cacheTimer := True\<rparr>)) = Continue
   \<and> first_delete (snd (freeBody (fourPages\<lparr>cacheTimer := True\<rparr>))) = 1
   \<and> first_cached (snd (freeBody (fourPages\<lparr>cacheTimer := True\<rparr>))) = 1
   \<and> last_cached (snd (freeBody (fourPages\<lparr>cacheTimer := True\<rparr>))) = 2
   \<and> last_delete (snd (freeBody (fourPages\<lparr>cacheTimer := True\<rparr>))) = 3"
  using boundary_moves_unless_break [of "fourPages\<lparr>cacheTimer := True\<rparr>"]
  by (simp add: freeBody_fourPages) (simp add: fourPages_def freed_def)

text \<open>
  The claim as it stands fails for the pass that meets the limits. In \<^const>\<open>tight\<close> nine
  bytes are cached and eight are allowed; the pass removes page 0 from the cache map of
  the notes, finds the limits met, and leaves the loop with \<open>first_delete\<close> still 0.
\<close>

theorem boundary_moves_unless_break_counterexample:
  "mustFree tight
   \<and> fst (freeBody tight) = Break
   \<and> contains (data (notesCache tight)) 0
   \<and> \<not> contains (data (notesCache (snd (freeBody tight)))) 0
   \<and> first_delete (snd (freeBody tight)) = first_delete tight
   \<and> first_delete (snd (freeBody tight)) \<noteq> first_delete tight + 1"
  by (simp add: mustFree_def freeBody_def freeCachePage_def Let_def regionCheck_def enoughFreed_def
      clearPage_def clearCachePage_def fourPages_def tight_def idle_def CacheMap_length_def contains_def)

subsection \<open>The step on a broken region\<close>

text \<open>
  C4. A step that finds \<open>last_cached > last_delete\<close>, \<open>first_cached < first_delete\<close>,
  \<open>first_cached > currentPageNumber\<close> or \<open>last_cached < currentPageNumber - 1\<close> returns,
  and all it does is stop the timer: no cache map, no counter and no bound of the
  region changes, and no page is handed to \<^const>\<open>cachePage\<close>.
\<close>

theorem step_stops_on_broken_region:
  assumes "last_cached s > last_delete s \<or> first_cached s < first_delete s
           \<or> first_cached s > currentPageNumber s \<or> last_cached s < currentPageNumber s - 1"
  shows "updateCacheStep s = Some (s\<lparr>cacheTimer := False\<rparr>)"
  using assms by (simp add: updateCacheStep_def regionBroken_def)

theorem step_stops_on_broken_region_witness:
  "last_cached (fourPages\<lparr>last_delete := 1, cacheTimer := True\<rparr>)
     > last_delete (fourPages\<lparr>last_delete := 1, cacheTimer := True\<rparr>)
   \<and> updateCacheStep (fourPages\<lparr>last_delete := 1, cacheTimer := True\<rparr>)
       = Some (fourPages\<lparr>last_delete := 1, cacheTimer := False\<rparr>)"
  using step_stops_on_broken_region [of "fourPages\<lparr>last_delete := 1, cacheTimer := True\<rparr>"]
  by (simp add: fourPages_def)

subsection \<open>The reset of the region\<close>

text \<open>
  C5, as amended. When \<^verbatim>\<open>updateCache\<close> is entered with both limits different from 0,
  with not all slides cached, and with \<open>currentPageNumber\<close> outside the interval from
  \<open>first_cached\<close> to \<open>last_cached\<close>, it sets \<open>first_cached = currentPageNumber\<close>,
  \<open>last_cached = currentPageNumber - 1\<close>, \<open>first_delete = 0\<close> and
  \<open>last_delete = numberOfPages - 1\<close>.
\<close>

theorem updateCache_resets_region:
  assumes "maxCacheSize s \<noteq> 0" and "maxCacheNumber s \<noteq> 0" and "\<not> allCached s"
      and "first_cached s > currentPageNumber s \<or> last_cached s < currentPageNumber s"
  shows "first_cached (ControlScreen_updateCache s) = currentPageNumber s
       \<and> last_cached (ControlScreen_updateCache s) = currentPageNumber s - 1
       \<and> first_delete (ControlScreen_updateCache s) = 0
       \<and> last_delete (ControlScreen_updateCache s) = numberOfPages s - 1"
  using assms by (auto simp: ControlScreen_updateCache_def Let_def resetRegion_def)

theorem updateCache_resets_region_witness:
  "maxCacheSize jumped \<noteq> 0 \<and> maxCacheNumber jumped \<noteq> 0 \<and> \<not> allCached jumped
   \<and> last_cached jumped < currentPageNumber jumped
   \<and> first_cached (ControlScreen_updateCache jumped) = 3
   \<and> last_cached (ControlScreen_updateCache jumped) = 2
   \<and> first_delete (ControlScreen_updateCache jumped) = 0
   \<and> last_delete (ControlScreen_updateCache jumped) = 3"
proof -
  have h: "maxCacheSize jumped \<noteq> 0" "maxCacheNumber jumped \<noteq> 0" "\<not> allCached jumped"
      "first_cached jumped > currentPageNumber jumped \<or> last_cached jumped < currentPageNumber jumped"
    by (simp_all add: jumped_def fourPages_def allCached_def CacheMap_length_def idle_def)
  from updateCache_resets_region [OF h] h show ?thesis
    by (simp add: jumped_def fourPages_def)
qed

text \<open>
  The claim as it stands fails where \<^verbatim>\<open>updateCache\<close> returns before it looks at the
  region: with a limit of 0 it clears the cache maps and returns (and with all slides
  cached it stops the timer and returns). In \<^const>\<open>jumped\<close> with \<open>maxCacheNumber = 0\<close>
  the current page 3 is outside the region, and \<open>first_cached\<close> stays 0.
\<close>

theorem updateCache_resets_region_counterexample:
  "last_cached (jumped\<lparr>maxCacheNumber := 0\<rparr>) < currentPageNumber (jumped\<lparr>maxCacheNumber := 0\<rparr>)
   \<and> currentPageNumber (jumped\<lparr>maxCacheNumber := 0\<rparr>) = 3
   \<and> first_cached (ControlScreen_updateCache (jumped\<lparr>maxCacheNumber := 0\<rparr>)) = 0"
  by (simp add: jumped_def fourPages_def ControlScreen_updateCache_def clearAllCaches_def)

subsection \<open>The page that is rendered next\<close>

text \<open>
  C6, as amended. Let a step get past its two tests and let its loop end, in \<open>s'\<close>,
  without ending the step (by \<open>freeLoop_ends_normally\<close> the loop ends in this way in
  every state that satisfies \<^const>\<open>canFree\<close> and passes the test of the region). Let
  \<open>last_cached + 1 < numberOfPages\<close> there, and let the products of the test be within
  their types. If \<open>2 * maxCacheSize < 3 * cacheSize\<close> and
  \<open>3 * (last_cached - currentPageNumber) * cacheSize > 2 * count * maxCacheSize\<close> and
  \<open>(maxCacheSize - cacheSize) * count < 2 * cacheSize\<close> all hold, \<open>count\<close> being the number
  of pages in the cache map of the presentation slide, the step only stops the timer.
  Otherwise it raises \<open>last_cached\<close> by one and dispatches that page: every cache map
  that does not hold the page and whose thread is idle starts to render it, the other
  cache maps stay as they are, \<open>cacheThreadsRunning\<close> is the number of cache maps that
  started, and the timer is stopped if one started and running if none did.
\<close>

theorem step_dispatches_next_page:
  assumes "\<not> allCached s" and "\<not> regionBroken s" and "freeLoop s = Some (False, s')"
      and "last_cached s' + 1 < numberOfPages s'" and "forwardTestFits s'"
  shows "updateCacheStep s =
     Some (if 2 * maxCacheSize s' < 3 * cacheSize s'
              \<and> 3 * (last_cached s' - currentPageNumber s') * cacheSize s'
                  > 2 * CacheMap_length (slideCache s') * maxCacheSize s'
              \<and> (maxCacheSize s' - cacheSize s') * CacheMap_length (slideCache s') < 2 * cacheSize s'
           then s'\<lparr>cacheTimer := False\<rparr>
           else dispatched (last_cached s' + 1) (s'\<lparr>last_cached := last_cached s' + 1\<rparr>))"
proof -
  from assms(1-3) have "updateCacheStep s = Some (selectPage s')"
    by (simp add: updateCacheStep_def)
  with selectPage_forward [OF assms(4) assms(5)] show ?thesis
    by simp
qed

text \<open>
  In \<^const>\<open>roomy\<close> the step dispatches page 3: the three cache maps start to render it.
  In \<^const>\<open>crowded\<close> the three conditions hold, and the step stops the timer.
\<close>

theorem step_dispatches_next_page_witness:
  "(\<not> allCached roomy \<and> \<not> regionBroken roomy \<and> freeLoop roomy = Some (False, roomy)
    \<and> last_cached roomy + 1 < numberOfPages roomy \<and> forwardTestFits roomy
    \<and> updateCacheStep roomy =
       Some (roomy\<lparr>last_cached := 3, cacheThreadsRunning := 3, cacheTimer := False,
               slideCache := \<lparr>data = [(0, ''s0''), (1, ''s1''), (2, ''s2'')], cacheThread = Some 3\<rparr>,
               notesCache := \<lparr>data = [(0, ''a''), (1, ''b''), (2, ''c'')], cacheThread = Some 3\<rparr>,
               previewCache := \<lparr>data = [], cacheThread = Some 3\<rparr>\<rparr>))
   \<and> (\<not> allCached crowded \<and> \<not> regionBroken crowded \<and> freeLoop crowded = Some (False, crowded)
    \<and> last_cached crowded + 1 < numberOfPages crowded \<and> forwardTestFits crowded
    \<and> updateCacheStep crowded = Some (crowded\<lparr>cacheTimer := False\<rparr>))"
proof -
  have c: "last_cached roomy + 1 < numberOfPages roomy"
    by (simp add: roomy_def fourPages_def)
  have d: "forwardTestFits roomy"
    by (simp add: forwardTestFits_def fits_int_def fits_qint64_def roomy_def fourPages_def
        CacheMap_length_def idle_def)
  have "updateCacheStep roomy =
       Some (roomy\<lparr>last_cached := 3, cacheThreadsRunning := 3, cacheTimer := False,
               slideCache := \<lparr>data = [(0, ''s0''), (1, ''s1''), (2, ''s2'')], cacheThread = Some 3\<rparr>,
               notesCache := \<lparr>data = [(0, ''a''), (1, ''b''), (2, ''c'')], cacheThread = Some 3\<rparr>,
               previewCache := \<lparr>data = [], cacheThread = Some 3\<rparr>\<rparr>)"
    using step_dispatches_next_page [OF forward_states_idle(1) forward_states_idle(2)
      forward_states_idle(3) c d]
    by (simp add: dispatched_def cacheMaps_def startRender_def canStart_def
        contains_def roomy_def fourPages_def CacheMap_length_def idle_def)
  moreover have c': "last_cached crowded + 1 < numberOfPages crowded"
    by (simp add: crowded_def roomy_def fourPages_def)
  moreover have d': "forwardTestFits crowded"
    by (simp add: forwardTestFits_def fits_int_def fits_qint64_def crowded_def roomy_def
        fourPages_def CacheMap_length_def idle_def)
  moreover have "updateCacheStep crowded = Some (crowded\<lparr>cacheTimer := False\<rparr>)"
    using step_dispatches_next_page [OF forward_states_idle(10) forward_states_idle(11)
      forward_states_idle(12) c' d']
    by (simp add: crowded_def roomy_def fourPages_def CacheMap_length_def idle_def)
  ultimately show ?thesis
    using forward_states_idle(1) forward_states_idle(2) forward_states_idle(3)
      forward_states_idle(10) forward_states_idle(11) forward_states_idle(12) c d by blast
qed

text \<open>
  The claim as it stands, that the step renders page \<open>last_cached + 1\<close> unless the three
  conditions hold, fails in two ways. In \<^const>\<open>stocked\<close> the first condition is false
  (40 is not below 39) and the step raises \<open>last_cached\<close> to 3, but every cache map holds
  page 3 already: no thread starts, no cache map changes, and \<^verbatim>\<open>cachePage\<close> starts the
  timer again for the next step. In \<^const>\<open>hugeBudget\<close> the first condition is false as
  well (the limit is far above the 27 on its right), but \<open>2 * maxCacheSize\<close> is not a
  \<^verbatim>\<open>qint64\<close>: all three tests of the source come out true, and the step stops the
  timer with page 3 in no cache map.
\<close>

theorem step_dispatches_next_page_counterexample:
  "(\<not> allCached stocked \<and> \<not> regionBroken stocked \<and> freeLoop stocked = Some (False, stocked)
    \<and> last_cached stocked + 1 < numberOfPages stocked
    \<and> \<not> 2 * maxCacheSize stocked < 3 * cacheSize stocked
    \<and> updateCacheStep stocked = Some (stocked\<lparr>last_cached := 3\<rparr>)
    \<and> cacheThread (slideCache stocked) = None
    \<and> cacheThread (notesCache stocked) = None
    \<and> cacheThread (previewCache stocked) = None
    \<and> drawSlideCache stocked = None
    \<and> previewCacheX stocked = None)
   \<and> (\<not> allCached hugeBudget \<and> \<not> regionBroken hugeBudget
    \<and> freeLoop hugeBudget = Some (False, hugeBudget)
    \<and> last_cached hugeBudget + 1 < numberOfPages hugeBudget
    \<and> \<not> 2 * maxCacheSize hugeBudget < 3 * cacheSize hugeBudget
    \<and> \<not> contains (data (slideCache hugeBudget)) 3
    \<and> updateCacheStep hugeBudget = Some (hugeBudget\<lparr>cacheTimer := False\<rparr>))"
proof -
  have "selectPage stocked = stocked\<lparr>last_cached := 3\<rparr>"
    by (simp add: selectPage_def cachePage_def countThread_def CacheMap_updateCache_def
        contains_def as_int_def as_qint64_def stocked_def roomy_def fourPages_def
        CacheMap_length_def idle_def)
  moreover have "selectPage hugeBudget = hugeBudget\<lparr>cacheTimer := False\<rparr>"
    by (simp add: selectPage_def as_int_def as_qint64_def hugeBudget_def roomy_def
        fourPages_def CacheMap_length_def idle_def)
  moreover have "last_cached stocked + 1 < numberOfPages stocked"
    "\<not> 2 * maxCacheSize stocked < 3 * cacheSize stocked"
    "cacheThread (slideCache stocked) = None" "cacheThread (notesCache stocked) = None"
    "cacheThread (previewCache stocked) = None"
    "drawSlideCache stocked = None" "previewCacheX stocked = None"
    by (simp_all add: stocked_def roomy_def fourPages_def idle_def)
  moreover have "last_cached hugeBudget + 1 < numberOfPages hugeBudget"
    "\<not> 2 * maxCacheSize hugeBudget < 3 * cacheSize hugeBudget"
    "\<not> contains (data (slideCache hugeBudget)) 3"
    by (simp_all add: hugeBudget_def roomy_def fourPages_def idle_def contains_def)
  ultimately show ?thesis
    by (simp add: updateCacheStep_def forward_states_idle)
qed

text \<open>
  C7, as amended. Let a step get past its two tests and let its loop end, in \<open>s'\<close>,
  without ending the step. Let \<open>last_cached + 1 = numberOfPages\<close> there, let the limit on
  pages be at most \<open>numberOfPages\<close>, and let the products of the test be within their
  types. Then the step lowers \<open>first_cached\<close> by one and dispatches that page (every cache
  map that does not hold the page and whose thread is idle starts to render it, the
  other cache maps stay as they are, \<open>cacheThreadsRunning\<close> is the number of cache maps
  that started, and the timer is stopped if one started and running if none did) if and
  only if \<open>first_cached > first_delete\<close>, \<open>2 * maxCacheSize > 3 * cacheSize\<close> and, for the
  pages, \<open>2 * maxCacheNumber > 3 * count\<close> or the limit on pages is not below
  \<open>numberOfPages\<close>. Otherwise, and only then, the step only stops the timer. What the
  step does with a limit on pages above \<open>numberOfPages\<close> is not part of the statement:
  there the source tests \<open>maxCacheNumber == numberOfPages\<close> where the loop and
  \<^verbatim>\<open>freeCachePage\<close> test \<open>maxCacheNumber < numberOfPages\<close> and
  \<open>maxCacheNumber >= numberOfPages\<close>.
\<close>

theorem step_dispatches_previous_page:
  assumes "\<not> allCached s" and "\<not> regionBroken s" and "freeLoop s = Some (False, s')"
      and "last_cached s' + 1 = numberOfPages s'"
      and "maxCacheNumber s' \<le> numberOfPages s'" and "backwardTestFits s'"
  shows "(updateCacheStep s
            = Some (dispatched (first_cached s' - 1) (s'\<lparr>first_cached := first_cached s' - 1\<rparr>))
          \<longleftrightarrow> first_cached s' > first_delete s'
              \<and> 2 * maxCacheSize s' > 3 * cacheSize s'
              \<and> (maxCacheNumber s' \<ge> numberOfPages s'
                  \<or> 2 * maxCacheNumber s' > 3 * CacheMap_length (slideCache s')))
       \<and> (updateCacheStep s = Some (s'\<lparr>cacheTimer := False\<rparr>)
          \<longleftrightarrow> \<not> (first_cached s' > first_delete s'
              \<and> 2 * maxCacheSize s' > 3 * cacheSize s'
              \<and> (maxCacheNumber s' \<ge> numberOfPages s'
                  \<or> 2 * maxCacheNumber s' > 3 * CacheMap_length (slideCache s'))))"
proof -
  have ne: "dispatched (first_cached s' - 1) (s'\<lparr>first_cached := first_cached s' - 1\<rparr>)
      \<noteq> s'\<lparr>cacheTimer := False\<rparr>"
  proof
    assume "dispatched (first_cached s' - 1) (s'\<lparr>first_cached := first_cached s' - 1\<rparr>)
        = s'\<lparr>cacheTimer := False\<rparr>"
    then have "first_cached (dispatched (first_cached s' - 1) (s'\<lparr>first_cached := first_cached s' - 1\<rparr>))
        = first_cached (s'\<lparr>cacheTimer := False\<rparr>)" by simp
    then show False by simp
  qed
  from assms(5) have unlimited: "maxCacheNumber s' \<ge> numberOfPages s' \<longleftrightarrow> maxCacheNumber s' = numberOfPages s'"
    by auto
  from assms(1-3) have "updateCacheStep s = Some (selectPage s')"
    by (simp add: updateCacheStep_def)
  with selectPage_backward [OF assms(4) assms(6)] ne show ?thesis
    unfolding unlimited by auto
qed

text \<open>
  In \<^const>\<open>atEnd\<close> the step dispatches page 0: the three cache maps start to render it.
  In \<^const>\<open>atEndDone\<close> the region has reached \<open>first_delete\<close>, and the step stops the
  timer.
\<close>

theorem step_dispatches_previous_page_witness:
  "(\<not> allCached atEnd \<and> \<not> regionBroken atEnd \<and> freeLoop atEnd = Some (False, atEnd)
    \<and> last_cached atEnd + 1 = numberOfPages atEnd
    \<and> maxCacheNumber atEnd \<le> numberOfPages atEnd \<and> backwardTestFits atEnd
    \<and> first_cached atEnd > first_delete atEnd
    \<and> 2 * maxCacheSize atEnd > 3 * cacheSize atEnd
    \<and> updateCacheStep atEnd =
       Some (atEnd\<lparr>first_cached := 0, cacheThreadsRunning := 3, cacheTimer := False,
               slideCache := \<lparr>data = [(1, ''s1''), (2, ''s2'')], cacheThread = Some 0\<rparr>,
               notesCache := \<lparr>data = [(1, ''b''), (2, ''c'')], cacheThread = Some 0\<rparr>,
               previewCache := \<lparr>data = [], cacheThread = Some 0\<rparr>\<rparr>))
   \<and> (\<not> allCached atEndDone \<and> \<not> regionBroken atEndDone
    \<and> freeLoop atEndDone = Some (False, atEndDone)
    \<and> last_cached atEndDone + 1 = numberOfPages atEndDone
    \<and> maxCacheNumber atEndDone \<le> numberOfPages atEndDone \<and> backwardTestFits atEndDone
    \<and> \<not> first_cached atEndDone > first_delete atEndDone
    \<and> updateCacheStep atEndDone = Some (atEndDone\<lparr>cacheTimer := False\<rparr>))"
proof -
  have c: "last_cached atEnd + 1 = numberOfPages atEnd"
    "maxCacheNumber atEnd \<le> numberOfPages atEnd"
    by (simp_all add: atEnd_def fourPages_def)
  have d: "backwardTestFits atEnd"
    by (simp add: backwardTestFits_def fits_int_def fits_qint64_def atEnd_def fourPages_def
        CacheMap_length_def idle_def)
  have e: "first_cached atEnd > first_delete atEnd"
    "2 * maxCacheSize atEnd > 3 * cacheSize atEnd"
    by (simp_all add: atEnd_def fourPages_def)
  have "updateCacheStep atEnd =
       Some (atEnd\<lparr>first_cached := 0, cacheThreadsRunning := 3, cacheTimer := False,
               slideCache := \<lparr>data = [(1, ''s1''), (2, ''s2'')], cacheThread = Some 0\<rparr>,
               notesCache := \<lparr>data = [(1, ''b''), (2, ''c'')], cacheThread = Some 0\<rparr>,
               previewCache := \<lparr>data = [], cacheThread = Some 0\<rparr>\<rparr>)"
    using step_dispatches_previous_page [OF backward_states_idle(1) backward_states_idle(2)
      backward_states_idle(3) c(1) c(2) d]
    by (simp add: dispatched_def cacheMaps_def startRender_def canStart_def
        contains_def atEnd_def fourPages_def CacheMap_length_def idle_def)
  moreover have c': "last_cached atEndDone + 1 = numberOfPages atEndDone"
    "maxCacheNumber atEndDone \<le> numberOfPages atEndDone"
    "\<not> first_cached atEndDone > first_delete atEndDone"
    by (simp_all add: atEndDone_def atEnd_def fourPages_def)
  moreover have d': "backwardTestFits atEndDone"
    by (simp add: backwardTestFits_def fits_int_def fits_qint64_def atEndDone_def atEnd_def
        fourPages_def CacheMap_length_def idle_def)
  moreover have "updateCacheStep atEndDone = Some (atEndDone\<lparr>cacheTimer := False\<rparr>)"
    using step_dispatches_previous_page [OF backward_states_idle(13) backward_states_idle(14)
      backward_states_idle(15) c'(1) c'(2) d'] c'(3)
    by simp
  ultimately show ?thesis
    using backward_states_idle(1) backward_states_idle(2) backward_states_idle(3)
      backward_states_idle(13) backward_states_idle(14) backward_states_idle(15) c d e by blast
qed

text \<open>
  The claim as it stands, that the step renders page \<open>first_cached - 1\<close> if and only if
  \<open>first_cached > first_delete\<close>, the bytes used are below 2/3 of their limit, and the
  pages used are below 2/3 of theirs or the limit on pages is unlimited (not below
  \<open>numberOfPages\<close>), fails in three ways. In \<^const>\<open>stockedAtEnd\<close> the three conditions
  hold and the step lowers \<open>first_cached\<close> to 0, but every cache map holds page 0
  already: no thread starts, no cache map changes, and the timer is started again. In
  \<^const>\<open>aboveN\<close> the limit on pages, 6, is above the five pages of the document, and the
  bytes are far below their limit; the source tests \<open>maxCacheNumber == numberOfPages\<close>,
  which is false, then \<open>2 * 6 > 3 * 4\<close>, which is false, and stops the timer. In
  \<^const>\<open>hugeAtEnd\<close> the bytes used are far below 2/3 of the limit, but
  \<open>2 * maxCacheSize\<close> is not a \<^verbatim>\<open>qint64\<close>: the test comes out false, and the step stops
  the timer.
\<close>

theorem step_dispatches_previous_page_counterexample:
  "(\<not> allCached stockedAtEnd \<and> \<not> regionBroken stockedAtEnd
    \<and> freeLoop stockedAtEnd = Some (False, stockedAtEnd)
    \<and> last_cached stockedAtEnd + 1 = numberOfPages stockedAtEnd
    \<and> first_cached stockedAtEnd > first_delete stockedAtEnd
    \<and> 2 * maxCacheSize stockedAtEnd > 3 * cacheSize stockedAtEnd
    \<and> maxCacheNumber stockedAtEnd \<ge> numberOfPages stockedAtEnd
    \<and> updateCacheStep stockedAtEnd = Some (stockedAtEnd\<lparr>first_cached := 0\<rparr>)
    \<and> cacheThread (slideCache stockedAtEnd) = None
    \<and> cacheThread (notesCache stockedAtEnd) = None
    \<and> cacheThread (previewCache stockedAtEnd) = None
    \<and> drawSlideCache stockedAtEnd = None
    \<and> previewCacheX stockedAtEnd = None)
   \<and> (\<not> allCached aboveN \<and> \<not> regionBroken aboveN \<and> freeLoop aboveN = Some (False, aboveN)
    \<and> last_cached aboveN + 1 = numberOfPages aboveN
    \<and> first_cached aboveN > first_delete aboveN
    \<and> 2 * maxCacheSize aboveN > 3 * cacheSize aboveN
    \<and> maxCacheNumber aboveN \<ge> numberOfPages aboveN
    \<and> \<not> contains (data (slideCache aboveN)) 0
    \<and> updateCacheStep aboveN = Some (aboveN\<lparr>cacheTimer := False\<rparr>))
   \<and> (\<not> allCached hugeAtEnd \<and> \<not> regionBroken hugeAtEnd
    \<and> freeLoop hugeAtEnd = Some (False, hugeAtEnd)
    \<and> last_cached hugeAtEnd + 1 = numberOfPages hugeAtEnd
    \<and> first_cached hugeAtEnd > first_delete hugeAtEnd
    \<and> 2 * maxCacheSize hugeAtEnd > 3 * cacheSize hugeAtEnd
    \<and> maxCacheNumber hugeAtEnd \<ge> numberOfPages hugeAtEnd
    \<and> \<not> contains (data (slideCache hugeAtEnd)) 0
    \<and> updateCacheStep hugeAtEnd = Some (hugeAtEnd\<lparr>cacheTimer := False\<rparr>))"
proof -
  have "selectPage stockedAtEnd = stockedAtEnd\<lparr>first_cached := 0\<rparr>"
    by (simp add: selectPage_def cachePage_def countThread_def CacheMap_updateCache_def
        contains_def as_int_def as_qint64_def stockedAtEnd_def atEnd_def fourPages_def
        CacheMap_length_def idle_def)
  moreover have "selectPage aboveN = aboveN\<lparr>cacheTimer := False\<rparr>"
    by (simp add: selectPage_def as_int_def as_qint64_def aboveN_def CacheMap_length_def idle_def)
  moreover have "selectPage hugeAtEnd = hugeAtEnd\<lparr>cacheTimer := False\<rparr>"
    by (simp add: selectPage_def as_int_def as_qint64_def hugeAtEnd_def atEnd_def
        fourPages_def CacheMap_length_def idle_def)
  moreover have "last_cached stockedAtEnd + 1 = numberOfPages stockedAtEnd"
    "first_cached stockedAtEnd > first_delete stockedAtEnd"
    "2 * maxCacheSize stockedAtEnd > 3 * cacheSize stockedAtEnd"
    "maxCacheNumber stockedAtEnd \<ge> numberOfPages stockedAtEnd"
    "cacheThread (slideCache stockedAtEnd) = None" "cacheThread (notesCache stockedAtEnd) = None"
    "cacheThread (previewCache stockedAtEnd) = None"
    "drawSlideCache stockedAtEnd = None" "previewCacheX stockedAtEnd = None"
    by (simp_all add: stockedAtEnd_def atEnd_def fourPages_def idle_def)
  moreover have "last_cached aboveN + 1 = numberOfPages aboveN"
    "first_cached aboveN > first_delete aboveN"
    "2 * maxCacheSize aboveN > 3 * cacheSize aboveN"
    "maxCacheNumber aboveN \<ge> numberOfPages aboveN"
    "\<not> contains (data (slideCache aboveN)) 0"
    by (simp_all add: aboveN_def idle_def contains_def)
  moreover have "last_cached hugeAtEnd + 1 = numberOfPages hugeAtEnd"
    "first_cached hugeAtEnd > first_delete hugeAtEnd"
    "2 * maxCacheSize hugeAtEnd > 3 * cacheSize hugeAtEnd"
    "maxCacheNumber hugeAtEnd \<ge> numberOfPages hugeAtEnd"
    "\<not> contains (data (slideCache hugeAtEnd)) 0"
    by (simp_all add: hugeAtEnd_def atEnd_def fourPages_def idle_def contains_def)
  ultimately show ?thesis
    by (simp add: updateCacheStep_def backward_states_idle)
qed

subsection \<open>A limit of zero\<close>

text \<open>
  C8, as amended. \<^verbatim>\<open>setCacheNumber\<close> with a negative number sets \<open>maxCacheNumber\<close> to
  \<open>numberOfPages\<close>. Neither \<^verbatim>\<open>setCacheNumber\<close> nor \<^verbatim>\<open>setCacheSize\<close> changes a cache
  map; after a limit has been set to 0, it is the next call of \<^verbatim>\<open>updateCache\<close> that
  clears all cache maps, and then every one of them holds 0 pages.
\<close>

theorem zero_budget_flushes:
  "(number < 0 \<longrightarrow> maxCacheNumber (setCacheNumber number s) = numberOfPages s)
   \<and> storesOf (setCacheNumber number s) = storesOf s
   \<and> storesOf (setCacheSize sz s) = storesOf s
   \<and> set (lengths (ControlScreen_updateCache (setCacheNumber 0 s))) \<subseteq> {0}
   \<and> set (lengths (ControlScreen_updateCache (setCacheSize 0 s))) \<subseteq> {0}"
proof -
  have a: "ControlScreen_updateCache (setCacheNumber 0 s) = clearAllCaches (setCacheNumber 0 s)"
    by (simp add: ControlScreen_updateCache_def setCacheNumber_def)
  have b: "ControlScreen_updateCache (setCacheSize 0 s) = clearAllCaches (setCacheSize 0 s)"
    by (simp add: ControlScreen_updateCache_def setCacheSize_def Let_def)
  show ?thesis
    unfolding a b
    by (simp add: lengths_clearAllCaches)
       (simp add: setCacheNumber_def setCacheSize_def interruptCacheProcesses_def storesOf_def Let_def)
qed

theorem zero_budget_flushes_witness:
  "maxCacheNumber (setCacheNumber (- 1) (fourPages\<lparr>maxCacheNumber := 2\<rparr>)) = 4
   \<and> lengths (ControlScreen_updateCache (setCacheNumber 0 fourPages)) = [0, 0, 0]
   \<and> lengths (ControlScreen_updateCache (setCacheSize 0 fourPages)) = [0, 0, 0]"
  using zero_budget_flushes [of "- 1" "fourPages\<lparr>maxCacheNumber := 2\<rparr>" 0]
    zero_budget_flushes [of 0 fourPages 0]
  by (simp add: fourPages_def)
     (simp add: lengths_def ControlScreen_updateCache_def setCacheNumber_def setCacheSize_def
        interruptCacheProcesses_def clearAllCaches_def CacheMap_clearCache_def clearCache_def
        CacheMap_length_def fourPages_def idle_def)


text \<open>
  The claim as it stands fails: setting a limit to 0 clears nothing. In
  \<^const>\<open>fourPages\<close> the cache map of the presentation slide holds three pages before
  and after.
\<close>

theorem zero_budget_flushes_counterexample:
  "CacheMap_length (slideCache (setCacheNumber 0 fourPages)) = 3
   \<and> CacheMap_length (slideCache (setCacheSize 0 fourPages)) = 3"
  by (simp add: setCacheNumber_def setCacheSize_def interruptCacheProcesses_def fourPages_def
      CacheMap_length_def idle_def)

subsection \<open>An image that arrives late\<close>

text \<open>
  C9, as amended. \<^verbatim>\<open>PageLabel::updateCache\<close> renders a page that is not cached and
  looks again before it writes. If the page has an entry by then, written while the
  image was rendered, the function returns 0 and the cache is as that other code left
  it. If the page has no entry by then, the image is written and its size returned;
  this is so in particular when the cache was cleared while the image was rendered:
  the late image is stored.
\<close>

theorem late_result_checked_against_entry:
  assumes "\<not> contains c index"
  shows "(contains (apply_ops during c) index \<longrightarrow>
            PageLabel_updateCache index png during c = (0, apply_ops during c))
       \<and> (\<not> contains (apply_ops during c) index \<longrightarrow>
            fst (PageLabel_updateCache index png during c) = int (length png)
            \<and> map_of (snd (PageLabel_updateCache index png during c)) index = Some png)
       \<and> map_of (snd (PageLabel_updateCache index png (during @ [ClearCache]) c)) index = Some png"
  using assms
  by (simp add: PageLabel_updateCache_def Let_def apply_ops_append contains_def clearCache_def update_conv')

theorem late_result_checked_against_entry_witness:
  "\<not> contains [(1, ''s1'')] 3
   \<and> PageLabel_updateCache 3 ''png'' [UpdateCacheBytes (Some ''other'') 3] [(1, ''s1'')]
       = (0, [(1, ''s1''), (3, ''other'')])
   \<and> map_of (snd (PageLabel_updateCache 3 ''png'' [UpdateCacheBytes (Some ''other'') 3, ClearCache] [(1, ''s1'')])) 3
       = Some ''png''"
  using late_result_checked_against_entry
          [of "[(1, ''s1'')]" 3 "[UpdateCacheBytes (Some ''other'') 3]" "''png''"]
  by (simp add: contains_def PageLabel_updateCache_bytes_def)


text \<open>
  The claim as it stands fails for a cache that is cleared while the image is rendered:
  the image for page 3 arrives after the clearing, and the cache holds it.
\<close>

theorem late_result_counterexample:
  "\<not> contains [(1, ''s1'')] 3
   \<and> PageLabel_updateCache 3 ''png'' [ClearCache] [(1, ''s1'')] = (3, [(3, ''png'')])
   \<and> contains (snd (PageLabel_updateCache 3 ''png'' [ClearCache] [(1, ''s1'')])) 3"
  by (simp add: PageLabel_updateCache_def contains_def clearCache_def)

subsection \<open>Page numbers out of range\<close>

text \<open>
  C10. For a page number below 0 or not below the number of pages,
  \<^verbatim>\<open>ControlScreen::renderPage\<close> sets \<open>currentPageNumber\<close> to the last page, and
  \<^verbatim>\<open>PresentationScreen::renderPage\<close> makes the last page the page of its label (for a
  document that has a page). Both functions are total: there is no failure, and the
  page is set whatever it was before.
\<close>

theorem renderPage_clamps_to_last_page:
  "(pageNumber < 0 \<or> pageNumber \<ge> numberOfPages s \<longrightarrow>
      currentPageNumber (ControlScreen_renderPage pageNumber s) = numberOfPages s - 1)
   \<and> (0 < numPages p \<and> (pageNumber < 0 \<or> pageNumber \<ge> numPages p) \<longrightarrow>
      page (label (PresentationScreen_renderPage render pageNumber p)) = Some (numPages p - 1)
      \<and> pageIndex (label (PresentationScreen_renderPage render pageNumber p)) = numPages p - 1)"
  by (auto simp: ControlScreen_renderPage_def PresentationScreen_renderPage_def
      PageLabel_renderPage_def getPage_def Let_def)

theorem renderPage_clamps_to_last_page_witness:
  "(7 \<ge> numberOfPages fourPages \<and> 0 < numPages fourPagesLabel \<and> 7 \<ge> numPages fourPagesLabel)
   \<and> currentPageNumber (ControlScreen_renderPage 7 fourPages) = 3
   \<and> page (label (PresentationScreen_renderPage (\<lambda>i. ''png'') 7 fourPagesLabel)) = Some 3
   \<and> pageIndex (label (PresentationScreen_renderPage (\<lambda>i. ''png'') 7 fourPagesLabel)) = 3"
  using renderPage_clamps_to_last_page [of 7 fourPages fourPagesLabel "\<lambda>i. ''png''"]
  by (simp add: fourPages_def fourPagesLabel_def)

end
